theory Spec2Isabelle
  imports Main "HOL-Library.Sublist" "HOL-Library.AList"
begin

section \<open>JavaScript values used by the proxy resolver\<close>

text \<open>
  A string is modelled as a \<^typ>\<open>string\<close>, the character with code \<open>n\<close> standing for the
  code unit \<open>n\<close>: these are the strings all of whose code units are below 256 (U+0000 to
  U+00FF), and strings with other code units are outside the model. Among these code
  units, \<^verbatim>\<open>String.prototype.trim\<close> and the regular expression class \<^verbatim>\<open>\s\<close> take as
  white space the tab, the line feed, the vertical tab, the form feed, the carriage
  return, the space and the no-break space U+00A0; and \<^verbatim>\<open>toLowerCase\<close> maps the letters
  A to Z and the letters U+00C0 to U+00DE, without the multiplication sign U+00D7, to the
  code unit 32 above, and leaves every other one as it is.
  A value of type \<^verbatim>\<open>string | undefined\<close> is a \<^typ>\<open>string option\<close>.
\<close>

definition isWhiteSpace :: "char \<Rightarrow> bool" where
  "isWhiteSpace c \<longleftrightarrow>
     c \<in> set [CHR 0x09, CHR 0x0A, CHR 0x0B, CHR 0x0C, CHR 0x0D, CHR '' '', CHR 0xA0]"

definition trim :: "string \<Rightarrow> string" where
  "trim s = rev (dropWhile isWhiteSpace (rev (dropWhile isWhiteSpace s)))"

definition upper_case :: string where
  "upper_case = ''ABCDEFGHIJKLMNOPQRSTUVWXYZ'' @
       [CHR 0xC0, CHR 0xC1, CHR 0xC2, CHR 0xC3, CHR 0xC4, CHR 0xC5, CHR 0xC6, CHR 0xC7,
        CHR 0xC8, CHR 0xC9, CHR 0xCA, CHR 0xCB, CHR 0xCC, CHR 0xCD, CHR 0xCE, CHR 0xCF,
        CHR 0xD0, CHR 0xD1, CHR 0xD2, CHR 0xD3, CHR 0xD4, CHR 0xD5, CHR 0xD6, CHR 0xD8,
        CHR 0xD9, CHR 0xDA, CHR 0xDB, CHR 0xDC, CHR 0xDD, CHR 0xDE]"

definition lower_case :: string where
  "lower_case = ''abcdefghijklmnopqrstuvwxyz'' @
       [CHR 0xE0, CHR 0xE1, CHR 0xE2, CHR 0xE3, CHR 0xE4, CHR 0xE5, CHR 0xE6, CHR 0xE7,
        CHR 0xE8, CHR 0xE9, CHR 0xEA, CHR 0xEB, CHR 0xEC, CHR 0xED, CHR 0xEE, CHR 0xEF,
        CHR 0xF0, CHR 0xF1, CHR 0xF2, CHR 0xF3, CHR 0xF4, CHR 0xF5, CHR 0xF6, CHR 0xF8,
        CHR 0xF9, CHR 0xFA, CHR 0xFB, CHR 0xFC, CHR 0xFD, CHR 0xFE]"

definition toLowerChar :: "char \<Rightarrow> char" where
  "toLowerChar c =
     (case map_of (zip upper_case lower_case) c of
        Some l \<Rightarrow> l
      | None \<Rightarrow> c)"

definition toLowerCase :: "string \<Rightarrow> string" where
  "toLowerCase s = map toLowerChar s"

text \<open>A value is truthy when it is neither \<^verbatim>\<open>undefined\<close> nor the empty string.\<close>

fun truthy :: "string option \<Rightarrow> bool" where
  "truthy None = False"
| "truthy (Some s) = (s \<noteq> [])"

text \<open>\<^verbatim>\<open>a || b\<close> on optional strings, and \<^verbatim>\<open>(a || '')\<close>.\<close>

definition js_or :: "string option \<Rightarrow> string option \<Rightarrow> string option" where
  "js_or a b = (if truthy a then a else b)"

definition or_empty :: "string option \<Rightarrow> string" where
  "or_empty a = (case js_or a (Some []) of Some s \<Rightarrow> s | None \<Rightarrow> [])"

text \<open>\<^verbatim>\<open>s.indexOf(pat)\<close>: the first position where \<open>pat\<close> occurs, \<open>None\<close> for -1.\<close>

fun indexOf :: "string \<Rightarrow> string \<Rightarrow> nat option" where
  "indexOf [] pat = (if pat = [] then Some 0 else None)"
| "indexOf (x # xs) pat =
     (if take (length pat) (x # xs) = pat then Some 0 else map_option Suc (indexOf xs pat))"

text \<open>\<^verbatim>\<open>s.split(c)\<close> for a separator of one character; the result is never empty.\<close>

fun split_on :: "char \<Rightarrow> string \<Rightarrow> string list" where
  "split_on c [] = [[]]"
| "split_on c (x # xs) =
     (if x = c then [] # split_on c xs
      else (case split_on c xs of [] \<Rightarrow> [[x]] | p # ps \<Rightarrow> (x # p) # ps))"

text \<open>
  Modelled from the spec: \<^verbatim>\<open>endsWith\<close> of \<^verbatim>\<open>vs/base/common/strings\<close> is imported by
  the resolver but is not part of the sources at hand; the specification says that the
  dotted host name "ends with" the entry's suffix.
\<close>

definition endsWith :: "string \<Rightarrow> string \<Rightarrow> bool" where
  "endsWith haystack needle \<longleftrightarrow>
     length needle \<le> length haystack \<and>
     drop (length haystack - length needle) haystack = needle"

section \<open>proxyFromConfigURL\<close>

definition proxyFromConfigURL :: "string option \<Rightarrow> string option" where
  "proxyFromConfigURL configURL =
     (let url = trim (or_empty configURL) in
      case indexOf url ''://'' of
        None \<Rightarrow> None
      | Some i \<Rightarrow>
          (let scheme = toLowerCase (take i url);
               proxy = drop (i + 3) url
           in if scheme = ''http'' then Some (''PROXY '' @ proxy)
              else if scheme = ''https'' then Some (''HTTPS '' @ proxy)
              else if scheme = ''socks'' then Some (''SOCKS '' @ proxy)
              else None))"

section \<open>noProxyFromEnv\<close>

text \<open>
  \<^verbatim>\<open>noProxyFromEnv\<close> returns one of three closures: \<^verbatim>\<open>() => true\<close>,
  \<^verbatim>\<open>() => false\<close>, or a closure over the compiled list of filters
  \<^verbatim>\<open>{ domain, port }\<close>. The closures are represented by the data they capture.
\<close>

datatype noProxy = Always | Never | Filters "(string \<times> string option) list"

text \<open>The destructuring \<^verbatim>\<open>([name, port]) => ({ name, port })\<close> of \<^verbatim>\<open>split(':', 2)\<close>.\<close>

fun name_port :: "string list \<Rightarrow> string option \<times> string option" where
  "name_port [] = (None, None)"
| "name_port [name] = (Some name, None)"
| "name_port (name # port # _) = (Some name, Some port)"

definition dotted :: "string \<Rightarrow> string" where
  "dotted name = (case name of c # _ \<Rightarrow> (if c = CHR ''.'' then name else CHR ''.'' # name)
                  | [] \<Rightarrow> CHR ''.'' # name)"

definition noProxyFromEnv :: "string option \<Rightarrow> noProxy" where
  "noProxyFromEnv envValue =
     (let val = toLowerCase (trim (or_empty envValue)) in
      if val = ''*'' then Always
      else
        (let filters =
           map (\<lambda>(name, port). (dotted (or_empty name), port))
             (filter (\<lambda>(name, port). truthy name)
               (map (\<lambda>s. name_port (take 2 (split_on CHR '':'' (trim s))))
                 (split_on CHR '','' val)))
         in if filters = [] then Never else Filters filters))"

datatype error = TypeError

text \<open>
  Calling the compiled predicate with \<^verbatim>\<open>(hostname, port)\<close>. The host name comes from
  \<^verbatim>\<open>url.parse\<close> and may be \<^verbatim>\<open>null\<close>; only the filter closure dereferences it
  (\<^verbatim>\<open>hostname.toLowerCase()\<close>), which then throws.
\<close>

fun callNoProxy :: "noProxy \<Rightarrow> string option \<Rightarrow> string \<Rightarrow> error + bool" where
  "callNoProxy Always hostname port = Inr True"
| "callNoProxy Never hostname port = Inr False"
| "callNoProxy (Filters filters) None port = Inl TypeError"
| "callNoProxy (Filters filters) (Some hostname) port =
     Inr (list_ex (\<lambda>(domain, filterPort).
            endsWith (CHR ''.'' # toLowerCase hostname) domain \<and>
            (\<not> truthy filterPort \<or> Some port = filterPort)) filters)"

section \<open>State of setupProxyResolution\<close>

text \<open>
  A \<^verbatim>\<open>Map\<close> from strings to strings is an association list in insertion order:
  \<^verbatim>\<open>set\<close> replaces the value of a key in place or appends a new entry, \<^verbatim>\<open>get\<close> of a
  missing key is \<^verbatim>\<open>undefined\<close>, \<^verbatim>\<open>size\<close> counts the entries. The external resolver
  may fulfil with \<^verbatim>\<open>undefined\<close>, so a stored value is optional as well.
\<close>

type_synonym jsmap = "(string \<times> string option) list"

definition map_get :: "jsmap \<Rightarrow> string \<Rightarrow> string option" where
  "map_get m k = (case map_of m k of None \<Rightarrow> None | Some v \<Rightarrow> v)"

definition map_set :: "jsmap \<Rightarrow> string \<Rightarrow> string option \<Rightarrow> jsmap" where
  "map_set m k v = AList.update k v m"

definition map_delete :: "jsmap \<Rightarrow> string \<Rightarrow> jsmap" where
  "map_delete m k = AList.delete k m"

definition map_size :: "jsmap \<Rightarrow> nat" where
  "map_size m = length m"

record ConnectionResult =
  cr_proxy :: string
  cr_connection :: string
  cr_code :: string
  cr_count :: nat

text \<open>The closure created by \<^verbatim>\<open>collectResult\<close>: the array it was given, and the trimmed token.\<close>

record listener =
  l_results :: nat
  l_proxy :: string
  l_connection :: string

datatype level = LTrace | LDebug | LError

datatype logarg = Str "string option" | Num nat

text \<open>The payload of the \<^verbatim>\<open>resolveProxy\<close> telemetry event.\<close>

record telemetry =
  ev_count :: nat
  ev_duration :: int
  ev_errorCount :: nat
  ev_cacheCount :: nat
  ev_cacheSize :: nat
  ev_cacheRolls :: nat
  ev_envCount :: nat
  ev_settingsCount :: nat
  ev_localhostCount :: nat
  ev_envNoProxyCount :: nat
  ev_results :: "ConnectionResult list"

text \<open>Calls made to the collaborators, in the order they happen.\<close>

datatype effect =
    SetTimeout
  | Callback "string option"
  | Log level string "logarg list"
  | ExternalResolve string
  | PublicLog telemetry

text \<open>
  The variables that the closures of \<^verbatim>\<open>setupProxyResolution\<close> share. \<open>results\<close> is the
  address of the current results array in the store \<open>arrays\<close>: \<^verbatim>\<open>logEvent\<close> binds the
  variable to a new array, while the listeners registered earlier keep the array they
  were given. \<open>listeners\<close> are the response and error handlers registered on the
  requests, and \<open>effects\<close> records the calls to the callback, the log service, the timer,
  the external resolver and the telemetry sink.
\<close>

record resolver =
  settingsProxy :: "string option"
  envProxy :: "string option"
  envNoProxy :: noProxy
  cacheRolls :: nat
  oldCache :: jsmap
  cache :: jsmap
  timeout :: bool
  count :: nat
  duration :: int
  errorCount :: nat
  cacheCount :: nat
  envCount :: nat
  settingsCount :: nat
  localhostCount :: nat
  envNoProxyCount :: nat
  results :: nat
  arrays :: "nat \<Rightarrow> ConnectionResult list"
  listeners :: "(nat \<times> listener) list"
  effects :: "effect list"

definition maxCacheEntries :: nat where
  "maxCacheEntries = 5000"

definition emit :: "effect \<Rightarrow> resolver \<Rightarrow> resolver" where
  "emit e s = s\<lparr>effects := effects s @ [e]\<rparr>"

record environment =
  https_proxy :: "string option"
  HTTPS_PROXY :: "string option"
  http_proxy :: "string option"
  HTTP_PROXY :: "string option"
  no_proxy :: "string option"
  NO_PROXY :: "string option"

text \<open>The state after \<^verbatim>\<open>setupProxyResolution\<close> has run, for the \<^verbatim>\<open>http.proxy\<close> setting
  and the process environment at that time.\<close>

definition setupProxyResolution :: "string option \<Rightarrow> environment \<Rightarrow> resolver" where
  "setupProxyResolution http_proxy_setting env =
     \<lparr> settingsProxy = proxyFromConfigURL http_proxy_setting,
       envProxy = proxyFromConfigURL
         (js_or (js_or (js_or (https_proxy env) (HTTPS_PROXY env)) (http_proxy env)) (HTTP_PROXY env)),
       envNoProxy = noProxyFromEnv (js_or (no_proxy env) (NO_PROXY env)),
       cacheRolls = 0, oldCache = [], cache = [], timeout = False,
       count = 0, duration = 0, errorCount = 0, cacheCount = 0, envCount = 0,
       settingsCount = 0, localhostCount = 0, envNoProxyCount = 0,
       results = 0, arrays = (\<lambda>_. []), listeners = [], effects = [] \<rparr>"

text \<open>The handler registered with \<^verbatim>\<open>onDidChangeConfiguration\<close>.\<close>

definition onDidChangeConfiguration :: "resolver \<Rightarrow> string option \<Rightarrow> resolver" where
  "onDidChangeConfiguration s http_proxy_setting =
     s\<lparr>settingsProxy := proxyFromConfigURL http_proxy_setting\<rparr>"

subsection \<open>The two generations of the cache\<close>

definition cacheProxy :: "resolver \<Rightarrow> string \<Rightarrow> string option \<Rightarrow> resolver" where
  "cacheProxy s key proxy =
     (let s = s\<lparr>cache := map_set (cache s) key proxy\<rparr> in
      if map_size (cache s) \<ge> maxCacheEntries then
        (let s = s\<lparr>oldCache := cache s\<rparr>;
             s = s\<lparr>cache := []\<rparr>;
             s = s\<lparr>cacheRolls := cacheRolls s + 1\<rparr>
         in emit (Log LTrace ''ProxyResolver#cacheProxy cacheRolls'' [Num (cacheRolls s)]) s)
      else s)"

definition getCachedProxy :: "resolver \<Rightarrow> string \<Rightarrow> string option \<times> resolver" where
  "getCachedProxy s key =
     (let proxy = map_get (cache s) key in
      if truthy proxy then (proxy, s)
      else
        (let proxy = map_get (oldCache s) key in
         if truthy proxy then
           (let s = s\<lparr>oldCache := map_delete (oldCache s) key\<rparr>;
                s = cacheProxy s key proxy
            in (proxy, s))
         else (proxy, s)))"

subsection \<open>Telemetry\<close>

definition logEvent :: "resolver \<Rightarrow> resolver" where
  "logEvent s =
     (let s = s\<lparr>timeout := False\<rparr>;
          s = emit (PublicLog
                \<lparr> ev_count = count s, ev_duration = duration s, ev_errorCount = errorCount s,
                  ev_cacheCount = cacheCount s, ev_cacheSize = map_size (cache s),
                  ev_cacheRolls = cacheRolls s, ev_envCount = envCount s,
                  ev_settingsCount = settingsCount s, ev_localhostCount = localhostCount s,
                  ev_envNoProxyCount = envNoProxyCount s,
                  ev_results = arrays s (results s) \<rparr>) s;
          s = s\<lparr>count := 0, duration := 0, errorCount := 0, cacheCount := 0, envCount := 0,
                settingsCount := 0, localhostCount := 0, envNoProxyCount := 0\<rparr>;
          fresh = Suc (results s)
      in s\<lparr>results := fresh, arrays := (arrays s)(fresh := [])\<rparr>)"

text \<open>\<^verbatim>\<open>String(n)\<close> and the template literal for a non-negative integer.\<close>

function decimal :: "nat \<Rightarrow> string" where
  "decimal n =
     (if n < 10 then [''0123456789'' ! n]
      else decimal (n div 10) @ [''0123456789'' ! (n mod 10)])"
  by pat_completeness auto
termination
  by (relation "measure id") auto

declare decimal.simps [simp del]

text \<open>\<^verbatim>\<open>findOrCreateResult\<close> returns the bucket's position in the (possibly extended) array.\<close>

fun find_result :: "ConnectionResult list \<Rightarrow> string \<Rightarrow> string \<Rightarrow> string \<Rightarrow> nat option" where
  "find_result [] p c d = None"
| "find_result (r # rs) p c d =
     (if cr_proxy r = p \<and> cr_connection r = c \<and> cr_code r = d then Some 0
      else map_option Suc (find_result rs p c d))"

definition findOrCreateResult ::
  "ConnectionResult list \<Rightarrow> string \<Rightarrow> string \<Rightarrow> string \<Rightarrow> ConnectionResult list \<times> nat" where
  "findOrCreateResult rs p c d =
     (case find_result rs p c d of
        Some i \<Rightarrow> (rs, i)
      | None \<Rightarrow> (rs @ [\<lparr>cr_proxy = p, cr_connection = c, cr_code = d, cr_count = 0\<rparr>],
                 length rs))"

definition count_up :: "ConnectionResult list \<times> nat \<Rightarrow> ConnectionResult list" where
  "count_up ri =
     (case ri of (rs, i) \<Rightarrow>
        rs[i := (rs ! i)\<lparr>cr_count := cr_count (rs ! i) + 1\<rparr>])"

text \<open>The first token of \<^verbatim>\<open>split(/\s+/, 1)\<close>.\<close>

definition first_token :: "string \<Rightarrow> string" where
  "first_token s = takeWhile (\<lambda>c. \<not> isWhiteSpace c) s"

definition collectResult ::
  "resolver \<Rightarrow> nat \<Rightarrow> string option \<Rightarrow> string \<Rightarrow> nat \<Rightarrow> resolver" where
  "collectResult s results_ref resolveProxy connection req =
     (let proxy = (if truthy resolveProxy then first_token (trim (or_empty resolveProxy))
                   else ''EMPTY'')
      in s\<lparr>listeners := listeners s @
            [(req, \<lparr>l_results = results_ref, l_proxy = proxy, l_connection = connection\<rparr>)]\<rparr>)"

text \<open>The two handlers of one listener: a response with a status code, an error with
  its \<^verbatim>\<open>code\<close> property when that is a string.\<close>

definition on_response :: "listener \<Rightarrow> nat \<Rightarrow> resolver \<Rightarrow> resolver" where
  "on_response l statusCode s =
     (let code = ''HTTP_'' @ decimal statusCode;
          a = l_results l
      in s\<lparr>arrays := (arrays s)
            (a := count_up (findOrCreateResult (arrays s a) (l_proxy l) (l_connection l) code))\<rparr>)"

definition on_error :: "listener \<Rightarrow> string option \<Rightarrow> resolver \<Rightarrow> resolver" where
  "on_error l err_code s =
     (let code = (if truthy err_code then or_empty err_code else ''UNKNOWN_ERROR'');
          a = l_results l
      in s\<lparr>arrays := (arrays s)
            (a := count_up (findOrCreateResult (arrays s a) (l_proxy l) (l_connection l) code))\<rparr>)"

text \<open>A request emits an event: its listeners run in the order of registration.\<close>

definition request_response :: "resolver \<Rightarrow> nat \<Rightarrow> nat \<Rightarrow> resolver" where
  "request_response s req statusCode =
     fold (\<lambda>(r, l) s. if r = req then on_response l statusCode s else s) (listeners s) s"

definition request_error :: "resolver \<Rightarrow> nat \<Rightarrow> string option \<Rightarrow> resolver" where
  "request_error s req err_code =
     fold (\<lambda>(r, l) s. if r = req then on_error l err_code s else s) (listeners s) s"

section \<open>resolveProxy\<close>

text \<open>
  \<^verbatim>\<open>url.parse\<close> and \<^verbatim>\<open>url.format\<close> belong to Node, so a call of \<^verbatim>\<open>resolveProxy\<close>
  is given by what the function reads: the request object \<open>req\<close> (its identity), the
  agent in \<^verbatim>\<open>opts.agent\<close> (absent, or with its \<^verbatim>\<open>defaultPort\<close>, which may be
  \<^verbatim>\<open>undefined\<close>), the URL string, the fields \<^verbatim>\<open>hostname\<close>, \<^verbatim>\<open>port\<close> and
  \<^verbatim>\<open>protocol\<close> of the parsed URL, and the cache key that \<^verbatim>\<open>getCacheKey\<close> formats
  from the parsed URL without path, query and fragment.
\<close>

record request =
  req :: nat
  opts_agent :: "nat option option"
  url :: string
  url_hostname :: "string option"
  url_port :: "string option"
  url_protocol :: "string option"
  url_key :: string

text \<open>What the promise handlers of a pending external resolution have captured.\<close>

record pending =
  p_req :: nat
  p_url :: string
  p_key :: string
  p_connection :: string
  p_start :: int

datatype completion = Returned | Threw error | Awaiting pending

definition arm_timer :: "resolver \<Rightarrow> resolver" where
  "arm_timer s = (if \<not> timeout s then emit SetTimeout (s\<lparr>timeout := True\<rparr>) else s)"

text \<open>\<^verbatim>\<open>String(parsedUrl.port || (<any>opts.agent).defaultPort)\<close>\<close>

definition port_argument :: "request \<Rightarrow> error + string" where
  "port_argument r =
     (if truthy (url_port r) then Inr (or_empty (url_port r))
      else (case opts_agent r of
              None \<Rightarrow> Inl TypeError
            | Some None \<Rightarrow> Inr ''undefined''
            | Some (Some n) \<Rightarrow> Inr (decimal n)))"

definition connection_of :: "string option \<Rightarrow> string" where
  "connection_of protocol = (if protocol = Some ''https:'' then ''HTTPS'' else ''HTTP'')"

definition resolveProxy :: "resolver \<Rightarrow> request \<Rightarrow> int \<Rightarrow> resolver \<times> completion" where
  "resolveProxy s r now =
     (let s = arm_timer s;
          hostname = url_hostname r
      in
      if hostname = Some ''localhost'' \<or> hostname = Some ''127.0.0.1'' \<or>
         hostname = Some ''::1'' \<or> hostname = Some ''::ffff:127.0.0.1'' then
        (let s = s\<lparr>localhostCount := localhostCount s + 1\<rparr>;
             s = emit (Callback (Some ''DIRECT'')) s;
             s = emit (Log LTrace ''ProxyResolver#resolveProxy localhost''
                        [Str (Some (url r)), Str (Some ''DIRECT'')]) s
         in (s, Returned))
      else
        (case port_argument r of
           Inl e \<Rightarrow> (s, Threw e)
         | Inr port \<Rightarrow>
        (case callNoProxy (envNoProxy s) hostname port of
           Inl e \<Rightarrow> (s, Threw e)
         | Inr True \<Rightarrow>
             (let s = s\<lparr>envNoProxyCount := envNoProxyCount s + 1\<rparr>;
                  s = emit (Callback (Some ''DIRECT'')) s;
                  s = emit (Log LTrace ''ProxyResolver#resolveProxy envNoProxy''
                             [Str (Some (url r)), Str (Some ''DIRECT'')]) s
              in (s, Returned))
         | Inr False \<Rightarrow>
             if truthy (settingsProxy s) then
               (let s = s\<lparr>settingsCount := settingsCount s + 1\<rparr>;
                    s = emit (Callback (settingsProxy s)) s;
                    s = emit (Log LTrace ''ProxyResolver#resolveProxy settings''
                               [Str (Some (url r)), Str (settingsProxy s)]) s
                in (s, Returned))
             else if truthy (envProxy s) then
               (let s = s\<lparr>envCount := envCount s + 1\<rparr>;
                    s = emit (Callback (envProxy s)) s;
                    s = emit (Log LTrace ''ProxyResolver#resolveProxy env''
                               [Str (Some (url r)), Str (envProxy s)]) s
                in (s, Returned))
             else
               (let key = url_key r;
                    (proxy, s) = getCachedProxy s key
                in
                if truthy proxy then
                  (let s = s\<lparr>cacheCount := cacheCount s + 1\<rparr>;
                       s = collectResult s (results s) proxy
                             (connection_of (url_protocol r)) (req r);
                       s = emit (Callback proxy) s;
                       s = emit (Log LTrace ''ProxyResolver#resolveProxy cached''
                                  [Str (Some (url r)), Str proxy]) s
                   in (s, Returned))
                else
                  (let start = now;
                       s = emit (ExternalResolve (url r)) s
                   in (s, Awaiting \<lparr>p_req = req r, p_url = url r, p_key = key,
                                     p_connection = connection_of (url_protocol r),
                                     p_start = start\<rparr>))))))"

text \<open>
  The promise of the external resolver settles later, in a turn of its own. When it
  fulfils with \<open>proxy\<close>, the two \<^verbatim>\<open>then\<close> handlers run one after the other; \<open>now\<close> is
  \<^verbatim>\<open>Date.now()\<close> in the second one.
\<close>

definition on_fulfilled :: "resolver \<Rightarrow> pending \<Rightarrow> string option \<Rightarrow> int \<Rightarrow> resolver" where
  "on_fulfilled s p proxy now =
     (let s = cacheProxy s (p_key p) proxy;
          s = collectResult s (results s) proxy (p_connection p) (p_req p);
          s = emit (Callback proxy) s;
          s = emit (Log LDebug ''ProxyResolver#resolveProxy'' [Str (Some (p_url p)), Str proxy]) s;
          s = s\<lparr>count := count s + 1\<rparr>;
          s = s\<lparr>duration := now - p_start p + duration s\<rparr>
      in s)"

text \<open>When it rejects, the rejection handler runs; \<open>message\<close> is \<^verbatim>\<open>toErrorMessage(err)\<close>.\<close>

definition on_rejected :: "resolver \<Rightarrow> pending \<Rightarrow> string \<Rightarrow> resolver" where
  "on_rejected s p message =
     (let s = s\<lparr>errorCount := errorCount s + 1\<rparr>;
          s = emit (Callback None) s;
          s = emit (Log LError ''ProxyResolver#resolveProxy'' [Str (Some message)]) s
      in s)"

subsection \<open>Runs of the resolver\<close>

text \<open>
  Everything runs on one event loop: a run is a sequence of turns. The timer can fire
  only while it is pending, so that turn is not enabled otherwise.
\<close>

datatype event =
    Resolve request int
  | Fulfilled pending "string option" int
  | Rejected pending string
  | TimerFired
  | Response nat nat
  | Failed nat "string option"
  | ConfigChanged "string option"

fun step :: "resolver \<Rightarrow> event \<Rightarrow> resolver option" where
  "step s (Resolve r now) = Some (fst (resolveProxy s r now))"
| "step s (Fulfilled p proxy now) = Some (on_fulfilled s p proxy now)"
| "step s (Rejected p message) = Some (on_rejected s p message)"
| "step s TimerFired = (if timeout s then Some (logEvent s) else None)"
| "step s (Response rq statusCode) = Some (request_response s rq statusCode)"
| "step s (Failed rq err_code) = Some (request_error s rq err_code)"
| "step s (ConfigChanged v) = Some (onDidChangeConfiguration s v)"

fun run :: "resolver \<Rightarrow> event list \<Rightarrow> resolver option" where
  "run s [] = Some s"
| "run s (e # es) = (case step s e of None \<Rightarrow> None | Some s' \<Rightarrow> run s' es)"

section \<open>The patched request functions\<close>

text \<open>
  The value of \<^verbatim>\<open>options.agent\<close>: absent, a boolean, an agent of the caller, or a
  \<^verbatim>\<open>ProxyAgent\<close> with its default port and the agent it replaced.
\<close>

datatype agent =
    NoAgent
  | BoolAgent bool
  | OtherAgent nat
  | ProxyAgent nat agent

text \<open>
  The properties of the options object that \<^verbatim>\<open>patched\<close> reads or writes; \<open>None\<close> is an
  absent property. The two private fields are \<^verbatim>\<open>_vscodeProxySupport\<close> and
  \<^verbatim>\<open>_vscodeSystemProxy\<close>.
\<close>

record options =
  o_socketPath :: "string option"
  o_agent :: agent
  o_vscodeProxySupport :: "string option"
  o_vscodeSystemProxy :: "string option"
  o_auth :: "string option"
  o_protocol :: "string option"
  o_hostname :: "string option"
  o_port :: "string option"
  o_path :: "string option"

definition empty_options :: options where
  "empty_options =
     \<lparr> o_socketPath = None, o_agent = NoAgent, o_vscodeProxySupport = None,
       o_vscodeSystemProxy = None, o_auth = None, o_protocol = None, o_hostname = None,
       o_port = None, o_path = None \<rparr>"

text \<open>A WHATWG URL object; all its components are strings.\<close>

record url_object =
  u_protocol :: string
  u_hostname :: string
  u_port :: string
  u_pathname :: string
  u_search :: string
  u_username :: string
  u_password :: string

text \<open>
  What a caller may pass in each position: a string, a URL object (it has
  \<^verbatim>\<open>searchParams\<close>), an options object, a function, or nothing.
\<close>

datatype argument =
    AString string
  | AUrl url_object
  | AOptions options
  | AFunction nat
  | AUndefined

text \<open>
  The outcome of one call: the original function applied to the caller's own arguments,
  the original function called with the rewritten options and the callback, or the
  \<^verbatim>\<open>TypeError\<close> of \<^verbatim>\<open>new URL\<close>.
\<close>

datatype dispatch =
    OriginalApply argument argument argument
  | OriginalCall options argument
  | Thrown error

definition agent_falsy :: "agent \<Rightarrow> bool" where
  "agent_falsy a \<longleftrightarrow> a = NoAgent \<or> a = BoolAgent False"

fun is_ProxyAgent :: "agent \<Rightarrow> bool" where
  "is_ProxyAgent (ProxyAgent _ _) = True"
| "is_ProxyAgent _ = False"

text \<open>
  \<^verbatim>\<open>onRequest && (options._vscodeProxySupport || options._vscodeSystemProxy) || setting.config\<close>
\<close>

definition effective_config :: "bool \<Rightarrow> string \<Rightarrow> options \<Rightarrow> string" where
  "effective_config onRequest setting_config opts =
     (if onRequest \<and> truthy (js_or (o_vscodeProxySupport opts) (o_vscodeSystemProxy opts))
      then or_empty (js_or (o_vscodeProxySupport opts) (o_vscodeSystemProxy opts))
      else setting_config)"

definition strip_brackets :: "string \<Rightarrow> string" where
  "strip_brackets h = (if take 1 h = ''['' then butlast (drop 1 h) else h)"

text \<open>\<^verbatim>\<open>{ ...urlOptions, ...options }\<close>: a property of \<open>options\<close> wins when it is present.\<close>

definition spread_url :: "url_object \<Rightarrow> options \<Rightarrow> options" where
  "spread_url parsed opts =
     opts\<lparr> o_protocol := (case o_protocol opts of None \<Rightarrow> Some (u_protocol parsed) | Some v \<Rightarrow> Some v),
           o_hostname := (case o_hostname opts of None \<Rightarrow> Some (strip_brackets (u_hostname parsed))
                          | Some v \<Rightarrow> Some v),
           o_port := (case o_port opts of None \<Rightarrow> Some (u_port parsed) | Some v \<Rightarrow> Some v),
           o_path := (case o_path opts of None \<Rightarrow> Some (u_pathname parsed @ u_search parsed)
                      | Some v \<Rightarrow> Some v) \<rparr>"

text \<open>
  The first statements of \<^verbatim>\<open>patched\<close> sort out the positions of the arguments: a first
  argument that is neither a string nor a URL object is the options, and a function
  in the place of the options is the callback; missing options are the empty object.
  (A string or a URL object in the place of the options is outside the type of the
  function and is read as an object without any of the properties.)
\<close>

definition shuffled :: "argument \<Rightarrow> argument \<Rightarrow> argument \<Rightarrow> argument \<times> options \<times> argument" where
  "shuffled url0 options0 callback0 =
     (let (url, opts, callback) =
            (case url0 of
               AString _ \<Rightarrow> (url0, options0, callback0)
             | AUrl _ \<Rightarrow> (url0, options0, callback0)
             | _ \<Rightarrow> (AUndefined, url0, options0));
          (opts, callback) =
            (case opts of AFunction _ \<Rightarrow> (AUndefined, opts) | _ \<Rightarrow> (opts, callback))
      in (url, case opts of AOptions o1 \<Rightarrow> o1 | _ \<Rightarrow> empty_options, callback))"

text \<open>
  The options that the substituted call gets, before the agent is set: with a URL
  (a non-empty string, or a URL object) its components are put under the options and
  its credentials become \<^verbatim>\<open>auth\<close>; \<open>new_URL\<close> stands for Node's \<^verbatim>\<open>new URL(string)\<close>,
  \<open>None\<close> when it throws, and then the result is \<open>None\<close> as well. (\<^verbatim>\<open>auth\<close> is also
  written into the caller's own options object, which is not followed here.)
\<close>

definition url_options ::
  "(string \<Rightarrow> url_object option) \<Rightarrow> argument \<Rightarrow> options \<Rightarrow> options option" where
  "url_options new_URL target opts =
     (case target of
        AString u \<Rightarrow>
          (if u = [] then Some opts
           else (case new_URL u of
                   None \<Rightarrow> None
                 | Some parsed \<Rightarrow>
                     Some (spread_url parsed
                       (if u_username parsed \<noteq> [] \<or> u_password parsed \<noteq> []
                        then opts\<lparr>o_auth := Some (u_username parsed @ '':'' @ u_password parsed)\<rparr>
                        else opts))))
      | AUrl parsed \<Rightarrow>
          Some (spread_url parsed
            (if u_username parsed \<noteq> [] \<or> u_password parsed \<noteq> []
             then opts\<lparr>o_auth := Some (u_username parsed @ '':'' @ u_password parsed)\<rparr>
             else opts))
      | _ \<Rightarrow> Some opts)"

text \<open>
  \<open>is_https\<close> says whether \<open>originals\<close> is the https module; \<open>setting_config\<close> is the
  value of \<^verbatim>\<open>setting.config\<close> at the time of the call. The original function is applied to
  \<^verbatim>\<open>arguments\<close>, which in a module (strict code) holds the values the caller passed.
\<close>

definition patched ::
  "(string \<Rightarrow> url_object option) \<Rightarrow> bool \<Rightarrow> string \<Rightarrow> bool \<Rightarrow>
   argument \<Rightarrow> argument \<Rightarrow> argument \<Rightarrow> dispatch" where
  "patched new_URL is_https setting_config onRequest url0 options0 callback0 =
     (let (url, opts, callback) = shuffled url0 options0 callback0;
          config = effective_config onRequest setting_config opts
      in
      if config = ''off'' then OriginalApply url0 options0 callback0
      else if \<not> truthy (o_socketPath opts) \<and>
              (config = ''override'' \<or> config = ''on'' \<and> agent_falsy (o_agent opts)) \<and>
              \<not> is_ProxyAgent (o_agent opts) then
        (case url_options new_URL url opts of
           None \<Rightarrow> Thrown TypeError
         | Some opts \<Rightarrow>
             OriginalCall
               (opts\<lparr>o_agent := ProxyAgent (if is_https then 443 else 80) (o_agent opts)\<rparr>)
               callback)
      else OriginalApply url0 options0 callback0)"

text \<open>
  \<^verbatim>\<open>createPatchedModules\<close> builds five variants of each module. \<^verbatim>\<open>setting.config\<close> is
  \<^verbatim>\<open>get('proxySupport') || 'off'\<close>, read again at every change of the configuration, so
  that at a call it is the value of the setting at that time. The variants \<^verbatim>\<open>off\<close>,
  \<^verbatim>\<open>on\<close> and \<^verbatim>\<open>override\<close> get a fixed object in its place; \<^verbatim>\<open>onRequest\<close> is true
  for all of them but \<^verbatim>\<open>default\<close>.
\<close>

datatype variant = Off | On | Override | OnRequest | Default

definition proxySupport_setting :: "string option \<Rightarrow> string" where
  "proxySupport_setting proxySupport = (if truthy proxySupport then or_empty proxySupport else ''off'')"

definition patches_arguments :: "variant \<Rightarrow> string option \<Rightarrow> string \<times> bool" where
  "patches_arguments v proxySupport =
     (case v of
        Off \<Rightarrow> (''off'', True)
      | On \<Rightarrow> (''on'', True)
      | Override \<Rightarrow> (''override'', True)
      | OnRequest \<Rightarrow> (proxySupport_setting proxySupport, True)
      | Default \<Rightarrow> (proxySupport_setting proxySupport, False))"

definition createPatchedModules ::
  "(string \<Rightarrow> url_object option) \<Rightarrow> string option \<Rightarrow> bool \<Rightarrow> variant \<Rightarrow>
   argument \<Rightarrow> argument \<Rightarrow> argument \<Rightarrow> dispatch" where
  "createPatchedModules new_URL proxySupport is_https v =
     (case patches_arguments v proxySupport of
        (setting_config, onRequest) \<Rightarrow> patched new_URL is_https setting_config onRequest)"

section \<open>Notions used in the statements\<close>

subsection \<open>The no-proxy list, said declaratively\<close>











subsection \<open>Observations on the record of calls\<close>

text \<open>
  What one turn adds to the record of calls, and the calls of each kind in such a list:
  the values passed to the callback, the URLs given to the external resolver, the
  timers armed, the telemetry events published, the levels of the log messages.
\<close>

definition new_effects :: "resolver \<Rightarrow> resolver \<Rightarrow> effect list" where
  "new_effects s s' = drop (length (effects s)) (effects s')"

fun callbacks :: "effect list \<Rightarrow> string option list" where
  "callbacks [] = []"
| "callbacks (Callback p # es) = p # callbacks es"
| "callbacks (_ # es) = callbacks es"

fun external_calls :: "effect list \<Rightarrow> string list" where
  "external_calls [] = []"
| "external_calls (ExternalResolve u # es) = u # external_calls es"
| "external_calls (_ # es) = external_calls es"

fun timers :: "effect list \<Rightarrow> nat" where
  "timers [] = 0"
| "timers (SetTimeout # es) = Suc (timers es)"
| "timers (_ # es) = timers es"

fun published :: "effect list \<Rightarrow> telemetry list" where
  "published [] = []"
| "published (PublicLog t # es) = t # published es"
| "published (_ # es) = published es"

fun log_levels :: "effect list \<Rightarrow> level list" where
  "log_levels [] = []"
| "log_levels (Log l _ _ # es) = l # log_levels es"
| "log_levels (_ # es) = log_levels es"

text \<open>The trace message of a roll-over caused by promoting the entry of \<open>k\<close>, if any.\<close>

definition roll_log :: "resolver \<Rightarrow> string \<Rightarrow> effect list" where
  "roll_log s k =
     (if \<not> truthy (map_get (cache s) k) \<and> truthy (map_get (oldCache s) k) \<and>
         maxCacheEntries \<le> map_size (map_set (cache s) k (map_get (oldCache s) k))
      then [Log LTrace ''ProxyResolver#cacheProxy cacheRolls'' [Num (cacheRolls s + 1)]] else [])"

subsection \<open>Sequences of calls, and sample data\<close>

text \<open>A sample environment and a sample request.\<close>

definition env0 :: environment where
  "env0 = \<lparr> https_proxy = Some ''http://env.example:8080'', HTTPS_PROXY = None,
            http_proxy = None, HTTP_PROXY = None, no_proxy = Some ''.internal'', NO_PROXY = None \<rparr>"

definition request0 :: request where
  "request0 = \<lparr> req = 1, opts_agent = Some (Some 443), url = ''https://example.com/index'',
                url_hostname = Some ''example.com'', url_port = None,
                url_protocol = Some ''https:'', url_key = ''https://example.com'' \<rparr>"

text \<open>
  A request for the cache key \<open>k\<close> that the first two steps of the chain pass on: its host
  name is no loopback name, and the no-proxy predicate is evaluated and does not match.
\<close>

definition not_bypassed :: "resolver \<Rightarrow> string \<Rightarrow> request \<Rightarrow> bool" where
  "not_bypassed s k r \<longleftrightarrow>
     url_key r = k \<and>
     url_hostname r \<notin> {Some ''localhost'', Some ''127.0.0.1'', Some ''::1'', Some ''::ffff:127.0.0.1''} \<and>
     (\<exists>port. port_argument r = Inr port \<and>
             callNoProxy (envNoProxy s) (url_hostname r) port = Inr False)"

text \<open>A sample run: no proxy configured anywhere, and the first call for the sample request.\<close>

definition env_none :: environment where
  "env_none = \<lparr> https_proxy = None, HTTPS_PROXY = None, http_proxy = None, HTTP_PROXY = None,
                no_proxy = None, NO_PROXY = None \<rparr>"

definition pending0 :: pending where
  "pending0 = \<lparr> p_req = 1, p_url = ''https://example.com/index'', p_key = ''https://example.com'',
                p_connection = ''HTTPS'', p_start = 0 \<rparr>"

definition state0 :: resolver where
  "state0 = setupProxyResolution None env_none"

definition state1 :: resolver where
  "state1 = fst (resolveProxy state0 request0 0)"

text \<open>Several insertions in a row.\<close>

definition insert_all :: "resolver \<Rightarrow> (string \<times> string option) list \<Rightarrow> resolver" where
  "insert_all s kvs = fold (\<lambda>(k, v) s. cacheProxy s k v) kvs s"

text \<open>
  The bound on the two generations: the current one stays below the capacity, the
  previous one within it, and no key occurs twice in a generation.
\<close>

definition cache_inv :: "resolver \<Rightarrow> bool" where
  "cache_inv s \<longleftrightarrow>
     map_size (cache s) < maxCacheEntries \<and> map_size (oldCache s) \<le> maxCacheEntries \<and>
     distinct (map fst (cache s)) \<and> distinct (map fst (oldCache s))"

text \<open>One entry more than the capacity, all with different keys.\<close>

definition many_entries :: "(string \<times> string option) list" where
  "many_entries = map (\<lambda>n. (replicate n CHR ''k'', Some ''DIRECT'')) [0..<Suc maxCacheEntries]"

text \<open>
  A sample run with two requests of one origin over plain HTTP: the first is resolved
  by the external resolver, the second from the cache, and both get a response with
  status 200.
\<close>

definition request_a :: request where
  "request_a = \<lparr> req = 1, opts_agent = Some (Some 80), url = ''http://example.com/a'',
                 url_hostname = Some ''example.com'', url_port = None,
                 url_protocol = Some ''http:'', url_key = ''http://example.com'' \<rparr>"

definition request_b :: request where
  "request_b = \<lparr> req = 2, opts_agent = Some (Some 80), url = ''http://example.com/b'',
                 url_hostname = Some ''example.com'', url_port = None,
                 url_protocol = Some ''http:'', url_key = ''http://example.com'' \<rparr>"

definition pending_a :: pending where
  "pending_a = \<lparr> p_req = 1, p_url = ''http://example.com/a'', p_key = ''http://example.com'',
                 p_connection = ''HTTP'', p_start = 0 \<rparr>"

definition two_requests :: "event list" where
  "two_requests =
     [Resolve request_a 0, Fulfilled pending_a (Some ''PROXY a:b'') 3, Resolve request_b 5,
      Response 1 200, Response 2 200]"

definition after_two_requests :: resolver where
  "after_two_requests =
     request_response (request_response
       (fst (resolveProxy (on_fulfilled (fst (resolveProxy state0 request_a 0)) pending_a
                (Some ''PROXY a:b'') 3) request_b 5)) 1 200) 2 200"

subsection \<open>Runs and the cache\<close>

text \<open>The two generations of the cache and the number of roll-overs so far.\<close>

definition generations :: "resolver \<Rightarrow> jsmap \<times> jsmap \<times> nat" where
  "generations s = (cache s, oldCache s, cacheRolls s)"

text \<open>
  Turns of three kinds: a change of the configuration, the fulfilment of an external
  resolution for the cache key \<open>k\<close>, and such a fulfilment with a usable (non-empty)
  value.
\<close>

fun config_change :: "event \<Rightarrow> bool" where
  "config_change (ConfigChanged v) = True"
| "config_change _ = False"


fun stores_usable :: "string \<Rightarrow> event \<Rightarrow> bool" where
  "stores_usable k (Fulfilled p v t) = (p_key p = k \<and> truthy v)"
| "stores_usable k _ = False"


text \<open>Neither generation holds a usable value for \<open>k\<close>.\<close>

definition unserved :: "string \<Rightarrow> resolver \<Rightarrow> bool" where
  "unserved k s \<longleftrightarrow> \<not> truthy (map_get (cache s) k) \<and> \<not> truthy (map_get (oldCache s) k)"

text \<open>No proxy comes from the settings or the environment, and the no-proxy list is empty.\<close>

definition no_proxy_configured :: "resolver \<Rightarrow> bool" where
  "no_proxy_configured s \<longleftrightarrow>
     \<not> truthy (settingsProxy s) \<and> \<not> truthy (envProxy s) \<and> envNoProxy s = Never"

text \<open>
  Requests to other origins, \<^verbatim>\<open>http://h:1\<close>, \<^verbatim>\<open>http://h:2\<close> and so on, with what their
  promise handlers capture; a burst of such requests, each calling \<^verbatim>\<open>resolveProxy\<close>
  once; the fulfilments of their external resolutions with \<open>DIRECT\<close>; and the entries that
  these put into the cache.
\<close>

definition other_origin :: "nat \<Rightarrow> string" where
  "other_origin n = ''http://h:'' @ decimal (Suc n)"

definition other_request :: "nat \<Rightarrow> request" where
  "other_request n =
     \<lparr> req = n + 2, opts_agent = Some (Some 80), url = other_origin n @ ''/'',
       url_hostname = Some ''h'', url_port = Some (decimal (Suc n)),
       url_protocol = Some ''http:'', url_key = other_origin n \<rparr>"

definition other_pending :: "nat \<Rightarrow> pending" where
  "other_pending n =
     \<lparr> p_req = n + 2, p_url = other_origin n @ ''/'', p_key = other_origin n,
       p_connection = ''HTTP'', p_start = 2 \<rparr>"

definition burst :: "nat \<Rightarrow> event list" where
  "burst n = map (\<lambda>i. Resolve (other_request i) 2) [0..<n]"

definition completions :: "nat \<Rightarrow> nat \<Rightarrow> event list" where
  "completions a b = map (\<lambda>i. Fulfilled (other_pending i) (Some ''DIRECT'') 6) [a..<b]"

definition other_entries :: "nat \<Rightarrow> nat \<Rightarrow> (string \<times> string option) list" where
  "other_entries a b = map (\<lambda>i. (other_origin i, Some ''DIRECT'')) [a..<b]"



definition undefined_after_rollover :: "event list" where
  "undefined_after_rollover =
     [Resolve request0 0, Resolve request0 1] @ burst 4999 @
     [Fulfilled pending0 (Some ''PROXY p.example:3128'') 5] @ completions 0 4999 @
     [Fulfilled (pending0\<lparr>p_start := 1\<rparr>) None 9]"

subsection \<open>Periods and invariants of runs\<close>

text \<open>The telemetry payload that a flush in state \<open>s\<close> publishes.\<close>

definition snapshot :: "resolver \<Rightarrow> telemetry" where
  "snapshot s =
     \<lparr> ev_count = count s, ev_duration = duration s, ev_errorCount = errorCount s,
       ev_cacheCount = cacheCount s, ev_cacheSize = map_size (cache s),
       ev_cacheRolls = cacheRolls s, ev_envCount = envCount s,
       ev_settingsCount = settingsCount s, ev_localhostCount = localhostCount s,
       ev_envNoProxyCount = envNoProxyCount s, ev_results = arrays s (results s) \<rparr>"





text \<open>What a step keeps of the timer, the record of calls and the listeners.\<close>

definition quiet_step :: "resolver \<Rightarrow> resolver \<Rightarrow> bool" where
  "quiet_step s s' \<longleftrightarrow>
     results s' = results s \<and>
     (\<exists>es. effects s' = effects s @ es \<and> timers es = 0 \<and> published es = []) \<and>
     (\<exists>ls. listeners s' = listeners s @ ls \<and> (\<forall>(q, l) \<in> set ls. l_results l = results s))"






subsection \<open>Substitution of the agent\<close>

text \<open>The URL argument is a non-empty string that \<^verbatim>\<open>new URL\<close> rejects.\<close>

definition url_unparsable :: "(string \<Rightarrow> url_object option) \<Rightarrow> argument \<Rightarrow> bool" where
  "url_unparsable new_URL target \<longleftrightarrow> (\<exists>u. target = AString u \<and> u \<noteq> [] \<and> new_URL u = None)"

text \<open>
  The global mode of a variant, the per-call field of a call (\<^verbatim>\<open>_vscodeProxySupport\<close>,
  else \<^verbatim>\<open>_vscodeSystemProxy\<close>, when set to a non-empty string), and the mode of a call
  as \<^verbatim>\<open>patched\<close> computes it in that variant.
\<close>

definition global_mode :: "variant \<Rightarrow> string option \<Rightarrow> string" where
  "global_mode v proxySupport = fst (patches_arguments v proxySupport)"

definition per_call_mode :: "options \<Rightarrow> string option" where
  "per_call_mode opts =
     (if truthy (o_vscodeProxySupport opts) then o_vscodeProxySupport opts
      else if truthy (o_vscodeSystemProxy opts) then o_vscodeSystemProxy opts
      else None)"

definition effective_mode :: "variant \<Rightarrow> string option \<Rightarrow> options \<Rightarrow> string" where
  "effective_mode v proxySupport opts =
     (case patches_arguments v proxySupport of
        (setting_config, onRequest) \<Rightarrow> effective_config onRequest setting_config opts)"

text \<open>
  The call substitutes a proxy agent: the original function is called with the callback
  and with options whose agent is a new \<^verbatim>\<open>ProxyAgent\<close> with the default port of the
  module, wrapped around the agent of the caller.
\<close>

definition substitutes :: "bool \<Rightarrow> options \<Rightarrow> argument \<Rightarrow> dispatch \<Rightarrow> bool" where
  "substitutes is_https opts callback result \<longleftrightarrow>
     (\<exists>opts'. result = OriginalCall opts' callback \<and>
        o_agent opts' = ProxyAgent (if is_https then 443 else 80) (o_agent opts) \<and>
        o_socketPath opts' = o_socketPath opts)"

text \<open>Sample arguments of the patched functions.\<close>

definition sample_URL :: "string \<Rightarrow> url_object option" where
  "sample_URL u =
     (if u = ''http://example.com/x''
      then Some \<lparr> u_protocol = ''http:'', u_hostname = ''example.com'', u_port = [],
                  u_pathname = ''/x'', u_search = [], u_username = [], u_password = [] \<rparr>
      else None)"

definition socket_options :: options where
  "socket_options = empty_options\<lparr>o_socketPath := Some ''/var/run/docker.sock''\<rparr>"

definition proxied_options :: options where
  "proxied_options = empty_options\<lparr>o_agent := ProxyAgent 80 NoAgent\<rparr>"

definition override_options :: options where
  "override_options = empty_options\<lparr>o_vscodeProxySupport := Some ''override''\<rparr>"

section \<open>Strings\<close>

lemma or_empty_eq: "or_empty a = (case a of None \<Rightarrow> [] | Some s \<Rightarrow> s)"
  by (cases a) (auto simp: or_empty_def js_or_def)





lemma indexOf_Some:
  "indexOf s pat = Some i \<Longrightarrow> \<exists>post. s = take i s @ pat @ post"
proof (induction s arbitrary: i)
  case Nil
  then show ?case by (simp split: if_splits)
next
  case (Cons x xs)
  show ?case
  proof (cases "take (length pat) (x # xs) = pat")
    case True
    with Cons.prems have "i = 0" by simp
    moreover have "x # xs = pat @ drop (length pat) (x # xs)"
      using True by (metis append_take_drop_id)
    ultimately show ?thesis by auto
  next
    case False
    with Cons.prems obtain j where j: "indexOf xs pat = Some j" "i = Suc j" by auto
    from Cons.IH [OF j(1)] obtain post where "xs = take j xs @ pat @ post" by blast
    then have "x # xs = take (Suc j) (x # xs) @ pat @ post" by simp
    with j(2) show ?thesis by blast
  qed
qed

lemma indexOf_least:
  "s = pre @ pat @ post \<Longrightarrow> \<exists>i. indexOf s pat = Some i \<and> i \<le> length pre"
proof (induction pre arbitrary: s)
  case Nil
  then have "take (length pat) s = pat" by simp
  then show ?case by (cases s) auto
next
  case (Cons p pre)
  then obtain xs where s: "s = p # xs" "xs = pre @ pat @ post" by auto
  from Cons.IH [OF s(2)] obtain j where "indexOf xs pat = Some j" "j \<le> length pre" by blast
  with s(1) show ?case by auto
qed

lemma indexOf_None:
  "indexOf s pat = None \<Longrightarrow> s \<noteq> pre @ pat @ post"
  using indexOf_least [of s pre pat post] by auto

lemma indexOf_first:
  assumes "s = pre @ pat @ post"
    and "\<forall>pre' post'. s = pre' @ pat @ post' \<longrightarrow> length pre \<le> length pre'"
  shows "indexOf s pat = Some (length pre)"
proof -
  from indexOf_least [OF assms(1)] obtain i where i: "indexOf s pat = Some i" "i \<le> length pre"
    by blast
  from indexOf_Some [OF i(1)] obtain post' where p: "s = take i s @ pat @ post'" by blast
  with assms(2) have "length pre \<le> length (take i s)" by blast
  with i show ?thesis by simp
qed

lemma toLowerChar_colon: "toLowerChar c = CHR '':'' \<longleftrightarrow> c = CHR '':''"
  by (auto simp: toLowerChar_def upper_case_def lower_case_def split: if_splits)

lemma toLowerChar_dot: "toLowerChar c = CHR ''.'' \<longleftrightarrow> c = CHR ''.''"
  by (auto simp: toLowerChar_def upper_case_def lower_case_def split: if_splits)

lemma proxyFromConfigURL_first:
  assumes "trim (or_empty configURL) = pre @ ''://'' @ post"
    and "\<forall>pre' post'. trim (or_empty configURL) = pre' @ ''://'' @ post' \<longrightarrow> length pre \<le> length pre'"
  shows "proxyFromConfigURL configURL =
           (if toLowerCase pre = ''http'' then Some (''PROXY '' @ post)
            else if toLowerCase pre = ''https'' then Some (''HTTPS '' @ post)
            else if toLowerCase pre = ''socks'' then Some (''SOCKS '' @ post)
            else None)"
proof -
  have "indexOf (trim (or_empty configURL)) ''://'' = Some (length pre)"
    using indexOf_first [OF assms] .
  then show ?thesis
    unfolding proxyFromConfigURL_def Let_def using assms(1) by simp
qed

lemma proxyFromConfigURL_none:
  assumes "\<not> (\<exists>pre post. trim (or_empty configURL) = pre @ ''://'' @ post)"
  shows "proxyFromConfigURL configURL = None"
proof (cases "indexOf (trim (or_empty configURL)) ''://''")
  case None
  then show ?thesis by (simp add: proxyFromConfigURL_def)
next
  case (Some i)
  from indexOf_Some [OF this] assms show ?thesis by blast
qed

section \<open>The no-proxy list\<close>









lemmas string_eval =
  trim_def or_empty_def js_or_def isWhiteSpace_def toLowerCase_def toLowerChar_def
  upper_case_def lower_case_def
  dotted_def endsWith_def





section \<open>The configured proxy URL\<close>

text \<open>
  Claim C6. \<^verbatim>\<open>proxyFromConfigURL\<close> trims its argument (an absent one counts as empty).
  When \<open>://\<close> does not occur in it the result is undefined. Otherwise, with \<open>pre\<close> the
  part before the first \<open>://\<close> and \<open>post\<close> the part behind it, the result is the HTTP
  proxy \<open>PROXY post\<close>, the HTTPS proxy \<open>HTTPS post\<close> or the SOCKS proxy \<open>SOCKS post\<close>
  when \<open>pre\<close> in lower case is \<open>http\<close>, \<open>https\<close> or \<open>socks\<close>, and undefined for every
  other scheme; \<open>post\<close> is carried as it stands. In particular \<open>http://proxy:8080\<close>
  gives \<open>PROXY proxy:8080\<close>, while \<open>ftp://x\<close> and the empty string give undefined.
\<close>

theorem proxyFromConfigURL_parses:
  "((\<nexists>pre post. trim (case configURL of None \<Rightarrow> [] | Some s \<Rightarrow> s) = pre @ ''://'' @ post) \<longrightarrow>
      proxyFromConfigURL configURL = None) \<and>
   (\<forall>pre post.
      trim (case configURL of None \<Rightarrow> [] | Some s \<Rightarrow> s) = pre @ ''://'' @ post \<and>
      (\<forall>pre' post'. trim (case configURL of None \<Rightarrow> [] | Some s \<Rightarrow> s) = pre' @ ''://'' @ post'
          \<longrightarrow> length pre \<le> length pre') \<longrightarrow>
      proxyFromConfigURL configURL =
        (if toLowerCase pre = ''http'' then Some (''PROXY '' @ post)
         else if toLowerCase pre = ''https'' then Some (''HTTPS '' @ post)
         else if toLowerCase pre = ''socks'' then Some (''SOCKS '' @ post)
         else None)) \<and>
   proxyFromConfigURL (Some ''http://proxy:8080'') = Some ''PROXY proxy:8080'' \<and>
   proxyFromConfigURL (Some ''ftp://x'') = None \<and>
   proxyFromConfigURL (Some '''') = None \<and>
   proxyFromConfigURL None = None"
proof (intro conjI)
  show "(\<nexists>pre post. trim (case configURL of None \<Rightarrow> [] | Some s \<Rightarrow> s) = pre @ ''://'' @ post) \<longrightarrow>
          proxyFromConfigURL configURL = None"
    using proxyFromConfigURL_none [of configURL] by (simp add: or_empty_eq)
  show "\<forall>pre post.
      trim (case configURL of None \<Rightarrow> [] | Some s \<Rightarrow> s) = pre @ ''://'' @ post \<and>
      (\<forall>pre' post'. trim (case configURL of None \<Rightarrow> [] | Some s \<Rightarrow> s) = pre' @ ''://'' @ post'
          \<longrightarrow> length pre \<le> length pre') \<longrightarrow>
      proxyFromConfigURL configURL =
        (if toLowerCase pre = ''http'' then Some (''PROXY '' @ post)
         else if toLowerCase pre = ''https'' then Some (''HTTPS '' @ post)
         else if toLowerCase pre = ''socks'' then Some (''SOCKS '' @ post)
         else None)"
    using proxyFromConfigURL_first [of configURL] unfolding or_empty_eq by blast
  show "proxyFromConfigURL (Some ''http://proxy:8080'') = Some ''PROXY proxy:8080''"
    by (simp add: proxyFromConfigURL_def string_eval)
  show "proxyFromConfigURL (Some ''ftp://x'') = None"
    by (simp add: proxyFromConfigURL_def string_eval)
  show "proxyFromConfigURL (Some '''') = None"
    by (simp add: proxyFromConfigURL_def string_eval)
  show "proxyFromConfigURL None = None"
    by (simp add: proxyFromConfigURL_def string_eval)
qed

theorem proxyFromConfigURL_parses_witness:
  "trim '' HTTPS://Proxy.Corp:3128 '' = ''HTTPS'' @ ''://'' @ ''Proxy.Corp:3128'' \<and>
   proxyFromConfigURL (Some '' HTTPS://Proxy.Corp:3128 '') = Some ''HTTPS Proxy.Corp:3128'' \<and>
   (\<nexists>pre post. trim ''proxy.corp:3128'' = pre @ ''://'' @ post) \<and>
   proxyFromConfigURL (Some ''proxy.corp:3128'') = None"
proof -
  have t: "trim '' HTTPS://Proxy.Corp:3128 '' = ''HTTPS'' @ ''://'' @ ''Proxy.Corp:3128''"
    by (simp add: string_eval)
  have i: "indexOf (trim '' HTTPS://Proxy.Corp:3128 '') ''://'' = Some 5"
    by (simp add: string_eval)
  have first: "\<forall>pre' post'. trim '' HTTPS://Proxy.Corp:3128 '' = pre' @ ''://'' @ post' \<longrightarrow>
      length ''HTTPS'' \<le> length pre'"
  proof (intro allI impI)
    fix pre' post'
    assume "trim '' HTTPS://Proxy.Corp:3128 '' = pre' @ ''://'' @ post'"
    from indexOf_least [OF this] i show "length ''HTTPS'' \<le> length pre'" by simp
  qed
  have l: "toLowerCase ''HTTPS'' = ''https''"
    by (simp add: string_eval)
  have "trim (case Some '' HTTPS://Proxy.Corp:3128 '' of None \<Rightarrow> [] | Some s \<Rightarrow> s)
          = ''HTTPS'' @ ''://'' @ ''Proxy.Corp:3128'' \<and>
        (\<forall>pre' post'. trim (case Some '' HTTPS://Proxy.Corp:3128 '' of None \<Rightarrow> [] | Some s \<Rightarrow> s)
            = pre' @ ''://'' @ post' \<longrightarrow> length ''HTTPS'' \<le> length pre')"
    using t first by (simp only: option.case simp_thms)
  from proxyFromConfigURL_parses [of "Some '' HTTPS://Proxy.Corp:3128 ''",
      THEN conjunct2, THEN conjunct1, rule_format, OF this]
  have r1: "proxyFromConfigURL (Some '' HTTPS://Proxy.Corp:3128 '') = Some ''HTTPS Proxy.Corp:3128''"
    using l by simp
  have n: "indexOf (trim ''proxy.corp:3128'') ''://'' = None"
    by (simp add: string_eval)
  have none: "\<nexists>pre post. trim ''proxy.corp:3128'' = pre @ ''://'' @ post"
    using indexOf_None [OF n] by blast
  have r2: "proxyFromConfigURL (Some ''proxy.corp:3128'') = None"
    using proxyFromConfigURL_parses [of "Some ''proxy.corp:3128''"] none by simp
  from t r1 none r2 show ?thesis by blast
qed

section \<open>The precedence chain\<close>

lemma callbacks_append [simp]: "callbacks (a @ b) = callbacks a @ callbacks b"
  by (induction a rule: callbacks.induct) auto
lemma external_calls_append [simp]: "external_calls (a @ b) = external_calls a @ external_calls b"
  by (induction a rule: external_calls.induct) auto
lemma timers_append [simp]: "timers (a @ b) = timers a + timers b"
  by (induction a rule: timers.induct) auto
lemma published_append [simp]: "published (a @ b) = published a @ published b"
  by (induction a rule: published.induct) auto
lemma log_levels_append [simp]: "log_levels (a @ b) = log_levels a @ log_levels b"
  by (induction a rule: log_levels.induct) auto

lemma new_effects_append: "effects s' = effects s @ es \<Longrightarrow> new_effects s s' = es"
  by (simp add: new_effects_def)

lemma effects_emit: "effects (emit e s) = effects s @ [e]"
  by (simp add: emit_def)

lemma effects_arm_timer:
  "effects (arm_timer s) = effects s @ (if timeout s then [] else [SetTimeout])"
  by (simp add: arm_timer_def emit_def)

lemma effects_cacheProxy:
  "\<exists>n. effects (cacheProxy s k v) = effects s @ 
     (if maxCacheEntries \<le> map_size (map_set (cache s) k v)
      then [Log LTrace ''ProxyResolver#cacheProxy cacheRolls'' [Num (cacheRolls s + 1)]] else [])"
  by (simp add: cacheProxy_def emit_def Let_def)

lemma fst_getCachedProxy:
  "fst (getCachedProxy s k) = js_or (map_get (cache s) k) (map_get (oldCache s) k)"
  by (simp add: getCachedProxy_def js_or_def Let_def)

lemma effects_getCachedProxy:
  "effects (snd (getCachedProxy s k)) = effects s @ roll_log s k"
  by (simp add: getCachedProxy_def cacheProxy_def emit_def Let_def roll_log_def)


lemma arm_timer_fields [simp]:
  "settingsProxy (arm_timer s) = settingsProxy s"
  "envProxy (arm_timer s) = envProxy s"
  "envNoProxy (arm_timer s) = envNoProxy s"
  "cache (arm_timer s) = cache s"
  "oldCache (arm_timer s) = oldCache s"
  "cacheRolls (arm_timer s) = cacheRolls s"
  "timeout (arm_timer s) = True"
  by (simp_all add: arm_timer_def emit_def)

lemma getCachedProxy_miss:
  "\<not> truthy (js_or (map_get (cache s) k) (map_get (oldCache s) k)) \<Longrightarrow>
   getCachedProxy s k = (js_or (map_get (cache s) k) (map_get (oldCache s) k), s)"
  by (auto simp: getCachedProxy_def js_or_def Let_def)

lemma resolveProxy_localhost:
  assumes "url_hostname r \<in> {Some ''localhost'', Some ''127.0.0.1'', Some ''::1'', Some ''::ffff:127.0.0.1''}"
  shows "resolveProxy s r now =
     (emit (Log LTrace ''ProxyResolver#resolveProxy localhost'' [Str (Some (url r)), Str (Some ''DIRECT'')])
        (emit (Callback (Some ''DIRECT''))
           ((arm_timer s)\<lparr>localhostCount := localhostCount (arm_timer s) + 1\<rparr>)), Returned)"
  using assms by (auto simp add: resolveProxy_def Let_def)

lemma resolveProxy_chain:
  assumes "url_hostname r \<notin> {Some ''localhost'', Some ''127.0.0.1'', Some ''::1'', Some ''::ffff:127.0.0.1''}"
    and "port_argument r = Inr port"
    and "callNoProxy (envNoProxy s) (url_hostname r) port = Inr False"
  shows "resolveProxy s r now =
     (let s = arm_timer s in
      if truthy (settingsProxy s) then
        (emit (Log LTrace ''ProxyResolver#resolveProxy settings'' [Str (Some (url r)), Str (settingsProxy s)])
          (emit (Callback (settingsProxy s)) (s\<lparr>settingsCount := settingsCount s + 1\<rparr>)), Returned)
      else if truthy (envProxy s) then
        (emit (Log LTrace ''ProxyResolver#resolveProxy env'' [Str (Some (url r)), Str (envProxy s)])
          (emit (Callback (envProxy s)) (s\<lparr>envCount := envCount s + 1\<rparr>)), Returned)
      else
        (let proxy = fst (getCachedProxy s (url_key r)); s = snd (getCachedProxy s (url_key r)) in
         if truthy proxy then
           (emit (Log LTrace ''ProxyResolver#resolveProxy cached'' [Str (Some (url r)), Str proxy])
             (emit (Callback proxy)
               (collectResult (s\<lparr>cacheCount := cacheCount s + 1\<rparr>) (results s) proxy
                  (connection_of (url_protocol r)) (req r))), Returned)
         else
           (emit (ExternalResolve (url r)) s,
            Awaiting \<lparr>p_req = req r, p_url = url r, p_key = url_key r,
                      p_connection = connection_of (url_protocol r), p_start = now\<rparr>)))"
  using assms
  by (simp add: resolveProxy_def Let_def emit_def collectResult_def split_beta)


lemma new_effects_emit2:
  "effects t = effects s @ es \<Longrightarrow> new_effects s (emit b (emit a t)) = es @ [a, b]"
  by (simp add: new_effects_def emit_def)

lemma new_effects_emit1:
  "effects t = effects s @ es \<Longrightarrow> new_effects s (emit a t) = es @ [a]"
  by (simp add: new_effects_def emit_def)

lemma effects_collectResult [simp]: "effects (collectResult s a p c q) = effects s"
  by (simp add: collectResult_def)

lemma roll_log_observed [simp]:
  "callbacks (roll_log s k) = []" "external_calls (roll_log s k) = []"
  "timers (roll_log s k) = 0" "published (roll_log s k) = []"
  by (simp_all add: roll_log_def)

text \<open>
  Claim C1. \<^verbatim>\<open>resolveProxy\<close> goes through its chain in order and stops at the first
  match. For a loopback host name (\<open>localhost\<close>, \<open>127.0.0.1\<close>, \<open>::1\<close>, \<open>::ffff:127.0.0.1\<close>)
  it returns having called the callback once, with \<open>DIRECT\<close>, whatever the state of cache,
  environment and settings. For any other host name that the no-proxy predicate does not
  match, it calls the callback once before returning with the settings proxy when there
  is one; else with the environment proxy when there is one; else with the cached
  entry when there is one; and only otherwise it calls the external resolver, with the
  URL, and returns without having called the callback.
\<close>

theorem resolveProxy_precedence:
  "(let s' = fst (resolveProxy s r now);
        done = snd (resolveProxy s r now);
        calls = new_effects s s';
        cached = js_or (map_get (cache s) (url_key r)) (map_get (oldCache s) (url_key r))
    in
    (url_hostname r \<in> {Some ''localhost'', Some ''127.0.0.1'', Some ''::1'', Some ''::ffff:127.0.0.1''} \<longrightarrow>
       done = Returned \<and> callbacks calls = [Some ''DIRECT''] \<and> external_calls calls = []) \<and>
    (url_hostname r \<notin> {Some ''localhost'', Some ''127.0.0.1'', Some ''::1'', Some ''::ffff:127.0.0.1''} \<and>
     port_argument r = Inr port \<and>
     callNoProxy (envNoProxy s) (url_hostname r) port = Inr False \<longrightarrow>
       (if truthy (settingsProxy s) then
          done = Returned \<and> callbacks calls = [settingsProxy s] \<and> external_calls calls = []
        else if truthy (envProxy s) then
          done = Returned \<and> callbacks calls = [envProxy s] \<and> external_calls calls = []
        else if truthy cached then
          done = Returned \<and> callbacks calls = [cached] \<and> external_calls calls = []
        else
          (\<exists>p. done = Awaiting p) \<and> callbacks calls = [] \<and> external_calls calls = [url r])))"
proof -
  let ?L = "{Some ''localhost'', Some ''127.0.0.1'', Some ''::1'', Some ''::ffff:127.0.0.1''}"
  let ?t = "if timeout s then [] else [SetTimeout]"
  have arm: "effects (arm_timer s) = effects s @ ?t" by (rule effects_arm_timer)
  have local: "url_hostname r \<in> ?L \<Longrightarrow>
      snd (resolveProxy s r now) = Returned \<and>
      callbacks (new_effects s (fst (resolveProxy s r now))) = [Some ''DIRECT''] \<and>
      external_calls (new_effects s (fst (resolveProxy s r now))) = []"
  proof -
    assume h: "url_hostname r \<in> ?L"
    have "effects ((arm_timer s)\<lparr>localhostCount := localhostCount (arm_timer s) + 1\<rparr>) = effects s @ ?t"
      using arm by simp
    from new_effects_emit2 [OF this] show ?thesis
      by (simp add: resolveProxy_localhost [OF h])
  qed
  have chain: "url_hostname r \<notin> ?L \<Longrightarrow> port_argument r = Inr port \<Longrightarrow>
      callNoProxy (envNoProxy s) (url_hostname r) port = Inr False \<Longrightarrow>
      (let s' = fst (resolveProxy s r now);
        done = snd (resolveProxy s r now);
        calls = new_effects s s';
        cached = js_or (map_get (cache s) (url_key r)) (map_get (oldCache s) (url_key r))
       in if truthy (settingsProxy s) then
          done = Returned \<and> callbacks calls = [settingsProxy s] \<and> external_calls calls = []
        else if truthy (envProxy s) then
          done = Returned \<and> callbacks calls = [envProxy s] \<and> external_calls calls = []
        else if truthy cached then
          done = Returned \<and> callbacks calls = [cached] \<and> external_calls calls = []
        else
          (\<exists>p. done = Awaiting p) \<and> callbacks calls = [] \<and> external_calls calls = [url r])"
  proof -
    assume h: "url_hostname r \<notin> ?L" "port_argument r = Inr port"
      "callNoProxy (envNoProxy s) (url_hostname r) port = Inr False"
    note rp = resolveProxy_chain [OF h, of now]
    show ?thesis
      unfolding rp Let_def
      by (simp add: new_effects_def effects_emit effects_arm_timer effects_getCachedProxy
            fst_getCachedProxy)
  qed
  show ?thesis
    unfolding Let_def using local chain [unfolded Let_def] by blast
qed

lemmas engine_eval = setupProxyResolution_def proxyFromConfigURL_def noProxyFromEnv_def
  port_argument_def decimal.simps

theorem resolveProxy_precedence_witness:
  "callbacks (new_effects (setupProxyResolution (Some ''http://settings.example:3128'') env0)
      (fst (resolveProxy (setupProxyResolution (Some ''http://settings.example:3128'') env0)
              request0 0)))
     = [Some ''PROXY settings.example:3128''] \<and>
   callbacks (new_effects (setupProxyResolution (Some ''http://settings.example:3128'') env0)
      (fst (resolveProxy (setupProxyResolution (Some ''http://settings.example:3128'') env0)
              (request0\<lparr>url_hostname := Some ''::1''\<rparr>) 0)))
     = [Some ''DIRECT'']"
proof -
  let ?s = "setupProxyResolution (Some ''http://settings.example:3128'') env0"
  have h1: "url_hostname request0 \<notin> {Some ''localhost'', Some ''127.0.0.1'', Some ''::1'', Some ''::ffff:127.0.0.1''}"
    by (simp add: request0_def)
  have h2: "port_argument request0 = Inr ''443''"
    by (simp add: request0_def engine_eval)
  have h3: "callNoProxy (envNoProxy ?s) (url_hostname request0) ''443'' = Inr False"
    by (simp add: request0_def env0_def engine_eval string_eval)
  have h4: "settingsProxy ?s = Some ''PROXY settings.example:3128''"
    by (simp add: engine_eval string_eval)
  have h5: "url_hostname (request0\<lparr>url_hostname := Some ''::1''\<rparr>) \<in> {Some ''localhost'', Some ''127.0.0.1'', Some ''::1'', Some ''::ffff:127.0.0.1''}"
    by simp
  from resolveProxy_precedence [of ?s request0 0 "''443''"] h1 h2 h3 h4
  have "callbacks (new_effects ?s (fst (resolveProxy ?s request0 0))) = [Some ''PROXY settings.example:3128'']"
    by (simp add: Let_def)
  moreover from resolveProxy_precedence [of ?s "request0\<lparr>url_hostname := Some ''::1''\<rparr>" 0 "''443''"] h5
  have "callbacks (new_effects ?s (fst (resolveProxy ?s (request0\<lparr>url_hostname := Some ''::1''\<rparr>) 0))) = [Some ''DIRECT'']"
    unfolding Let_def by blast
  ultimately show ?thesis by blast
qed

section \<open>The external resolver\<close>

lemma resolveProxy_Awaiting:
  assumes "resolveProxy s r now = (s1, Awaiting p)"
  shows "\<not> truthy (settingsProxy s) \<and> \<not> truthy (envProxy s) \<and>
         \<not> truthy (js_or (map_get (cache s) (url_key r)) (map_get (oldCache s) (url_key r))) \<and>
         s1 = emit (ExternalResolve (url r)) (arm_timer s) \<and>
         p = \<lparr>p_req = req r, p_url = url r, p_key = url_key r,
              p_connection = connection_of (url_protocol r), p_start = now\<rparr>"
proof -
  let ?L = "{Some ''localhost'', Some ''127.0.0.1'', Some ''::1'', Some ''::ffff:127.0.0.1''}"
  have nl: "url_hostname r \<notin> ?L"
  proof
    assume "url_hostname r \<in> ?L"
    from resolveProxy_localhost [OF this, of s now] assms show False by simp
  qed
  obtain port where port: "port_argument r = Inr port"
    using assms nl by (cases "port_argument r") (auto simp: resolveProxy_def Let_def)
  have np: "callNoProxy (envNoProxy s) (url_hostname r) port = Inr False"
    using assms nl port
    by (cases "callNoProxy (envNoProxy (arm_timer s)) (url_hostname r) port")
       (auto simp: resolveProxy_def Let_def split: if_splits bool.splits)
  note rp = resolveProxy_chain [OF nl port np, of now]
  have a: "\<not> truthy (settingsProxy s)" "\<not> truthy (envProxy s)"
    using assms unfolding rp Let_def by (auto split: if_splits)
  have c: "\<not> truthy (fst (getCachedProxy (arm_timer s) (url_key r)))"
    using assms a unfolding rp Let_def by (auto split: if_splits)
  then have m: "\<not> truthy (js_or (map_get (cache s) (url_key r)) (map_get (oldCache s) (url_key r)))"
    by (simp add: fst_getCachedProxy)
  then have "snd (getCachedProxy (arm_timer s) (url_key r)) = arm_timer s"
    using getCachedProxy_miss [of "arm_timer s" "url_key r"] by simp
  with assms a c have "s1 = emit (ExternalResolve (url r)) (arm_timer s)"
     and "p = \<lparr>p_req = req r, p_url = url r, p_key = url_key r,
              p_connection = connection_of (url_protocol r), p_start = now\<rparr>"
    unfolding rp Let_def by (auto split: if_splits)
  with a m show ?thesis by blast
qed

lemma arm_timer_eq:
  "arm_timer s = s\<lparr>timeout := True, effects := effects s @ (if timeout s then [] else [SetTimeout])\<rparr>"
  by (simp add: arm_timer_def emit_def)

lemma on_rejected_eq:
  "on_rejected s p message =
     s\<lparr>errorCount := errorCount s + 1,
       effects := effects s @ [Callback None, Log LError ''ProxyResolver#resolveProxy'' [Str (Some message)]]\<rparr>"
  by (simp add: on_rejected_def emit_def)

text \<open>
  Claim C8. When the promise of the external resolver rejects, the rejection handler
  adds one to the error counter, calls the callback without a proxy, logs one message
  at error level, and leaves everything else as it was: nothing is put into either
  generation of the cache and the external resolver is not called again. Taken from
  the state before the call of \<^verbatim>\<open>resolveProxy\<close>, the failed resolution as a whole has
  armed the timer if none was pending, called the external resolver once, and
  otherwise changed the error counter only.
\<close>

theorem rejection_handled:
  "on_rejected s p message =
     s\<lparr>errorCount := errorCount s + 1,
       effects := effects s @
         [Callback None, Log LError ''ProxyResolver#resolveProxy'' [Str (Some message)]]\<rparr> \<and>
   cache (on_rejected s p message) = cache s \<and>
   oldCache (on_rejected s p message) = oldCache s \<and>
   callbacks (new_effects s (on_rejected s p message)) = [None] \<and>
   log_levels (new_effects s (on_rejected s p message)) = [LError] \<and>
   external_calls (new_effects s (on_rejected s p message)) = [] \<and>
   (resolveProxy s0 r now = (s1, Awaiting p) \<longrightarrow>
      on_rejected s1 p message =
        s0\<lparr>timeout := True, errorCount := errorCount s0 + 1,
           effects := effects s0 @ (if timeout s0 then [] else [SetTimeout]) @
             [ExternalResolve (url r), Callback None,
              Log LError ''ProxyResolver#resolveProxy'' [Str (Some message)]]\<rparr>)"
proof -
  have "resolveProxy s0 r now = (s1, Awaiting p) \<Longrightarrow>
      on_rejected s1 p message =
        s0\<lparr>timeout := True, errorCount := errorCount s0 + 1,
           effects := effects s0 @ (if timeout s0 then [] else [SetTimeout]) @
             [ExternalResolve (url r), Callback None,
              Log LError ''ProxyResolver#resolveProxy'' [Str (Some message)]]\<rparr>"
  proof -
    assume "resolveProxy s0 r now = (s1, Awaiting p)"
    from resolveProxy_Awaiting [OF this]
    have "s1 = emit (ExternalResolve (url r)) (arm_timer s0)" by blast
    then show ?thesis by (simp add: on_rejected_eq arm_timer_eq emit_def)
  qed
  then show ?thesis
    by (simp add: on_rejected_eq new_effects_def)
qed

section \<open>The cache\<close>

lemma map_get_set: "map_get (map_set m k v) k' = (if k' = k then v else map_get m k')"
  by (simp add: map_get_def map_set_def update_conv')

lemma map_get_delete: "map_get (map_delete m k) k' = (if k' = k then None else map_get m k')"
  by (simp add: map_get_def map_delete_def delete_conv')

lemma map_get_empty [simp]: "map_get [] k = None"
  by (simp add: map_get_def)

lemma map_size_set:
  "map_size (map_set m k v) = (if k \<in> fst ` set m then map_size m else Suc (map_size m))"
  unfolding map_size_def map_set_def by (induction m) auto

lemma map_size_delete: "map_size (map_delete m k) \<le> map_size m"
  by (simp add: map_size_def map_delete_def length_delete_le)

lemma cacheProxy_eq:
  "cacheProxy s k v =
     (if maxCacheEntries \<le> map_size (map_set (cache s) k v)
      then s\<lparr>oldCache := map_set (cache s) k v, cache := [], cacheRolls := cacheRolls s + 1,
             effects := effects s @
               [Log LTrace ''ProxyResolver#cacheProxy cacheRolls'' [Num (cacheRolls s + 1)]]\<rparr>
      else s\<lparr>cache := map_set (cache s) k v\<rparr>)"
  by (simp add: cacheProxy_def Let_def emit_def)

lemma cacheProxy_lookup:
  "js_or (map_get (cache (cacheProxy s k v)) k) (map_get (oldCache (cacheProxy s k v)) k) =
     (if maxCacheEntries \<le> map_size (map_set (cache s) k v) then v
      else js_or v (map_get (oldCache s) k))"
  by (simp add: cacheProxy_eq map_get_set js_or_def)

lemma on_fulfilled_eq:
  "on_fulfilled s p proxy now =
     (let t = cacheProxy s (p_key p) proxy in
      t\<lparr>listeners := listeners t @
            [(p_req p, \<lparr>l_results = results t,
                        l_proxy = (if truthy proxy then first_token (trim (or_empty proxy)) else ''EMPTY''),
                        l_connection = p_connection p\<rparr>)],
        effects := effects t @
            [Callback proxy, Log LDebug ''ProxyResolver#resolveProxy'' [Str (Some (p_url p)), Str proxy]],
        count := count t + 1,
        duration := now - p_start p + duration t\<rparr>)"
  by (simp add: on_fulfilled_def collectResult_def emit_def Let_def)

lemma on_fulfilled_fields [simp]:
  "cache (on_fulfilled s p proxy now) = cache (cacheProxy s (p_key p) proxy)"
  "oldCache (on_fulfilled s p proxy now) = oldCache (cacheProxy s (p_key p) proxy)"
  "cacheRolls (on_fulfilled s p proxy now) = cacheRolls (cacheProxy s (p_key p) proxy)"
  "settingsProxy (on_fulfilled s p proxy now) = settingsProxy s"
  "envProxy (on_fulfilled s p proxy now) = envProxy s"
  "envNoProxy (on_fulfilled s p proxy now) = envNoProxy s"
  by (simp_all add: on_fulfilled_eq Let_def cacheProxy_eq)

lemma emit_fields [simp]:
  "cache (emit e s) = cache s" "oldCache (emit e s) = oldCache s"
  "settingsProxy (emit e s) = settingsProxy s" "envProxy (emit e s) = envProxy s"
  "envNoProxy (emit e s) = envNoProxy s" "cacheRolls (emit e s) = cacheRolls s"
  "timeout (emit e s) = timeout s"
  by (simp_all add: emit_def)

lemma resolveProxy_miss:
  assumes "\<not> truthy (settingsProxy s)" "\<not> truthy (envProxy s)"
    and "\<not> truthy (js_or (map_get (cache s) (url_key r)) (map_get (oldCache s) (url_key r)))"
    and "url_hostname r \<notin> {Some ''localhost'', Some ''127.0.0.1'', Some ''::1'', Some ''::ffff:127.0.0.1''}"
    and "port_argument r = Inr port"
    and "callNoProxy (envNoProxy s) (url_hostname r) port = Inr False"
  shows "resolveProxy s r now =
     (emit (ExternalResolve (url r)) (arm_timer s),
      Awaiting \<lparr>p_req = req r, p_url = url r, p_key = url_key r,
                p_connection = connection_of (url_protocol r), p_start = now\<rparr>)"
proof -
  have "getCachedProxy (arm_timer s) (url_key r) =
          (js_or (map_get (cache s) (url_key r)) (map_get (oldCache s) (url_key r)), arm_timer s)"
    using getCachedProxy_miss [of "arm_timer s" "url_key r"] assms(3) by simp
  with assms(1-3) show ?thesis
    unfolding resolveProxy_chain [OF assms(4-6)] Let_def by simp
qed

lemma not_truthy_js_or: "\<not> truthy (js_or a b) \<longleftrightarrow> \<not> truthy a \<and> \<not> truthy b"
  by (simp add: js_or_def)

lemma js_or_truthy: "truthy a \<Longrightarrow> js_or a b = a"
  by (simp add: js_or_def)

lemma effects_cacheProxy':
  "effects (cacheProxy s k v) = effects s @
     (if maxCacheEntries \<le> map_size (map_set (cache s) k v)
      then [Log LTrace ''ProxyResolver#cacheProxy cacheRolls'' [Num (cacheRolls s + 1)]] else [])"
  by (simp add: cacheProxy_eq)

lemma effects_on_fulfilled:
  "effects (on_fulfilled s p proxy now) = effects (cacheProxy s (p_key p) proxy) @
     [Callback proxy, Log LDebug ''ProxyResolver#resolveProxy'' [Str (Some (p_url p)), Str proxy]]"
  by (simp add: on_fulfilled_eq Let_def)

lemma not_bypassed_envNoProxy: "envNoProxy s' = envNoProxy s \<Longrightarrow> not_bypassed s' k r = not_bypassed s k r"
  by (simp add: not_bypassed_def)

lemma getCachedProxy_eq:
  "getCachedProxy s k =
     (js_or (map_get (cache s) k) (map_get (oldCache s) k),
      if \<not> truthy (map_get (cache s) k) \<and> truthy (map_get (oldCache s) k)
      then cacheProxy (s\<lparr>oldCache := map_delete (oldCache s) k\<rparr>) k (map_get (oldCache s) k)
      else s)"
  by (simp add: getCachedProxy_def Let_def js_or_def)

lemma cacheCount_kept [simp]:
  "cacheCount (emit e s) = cacheCount s"
  "cacheCount (arm_timer s) = cacheCount s"
  "cacheCount (cacheProxy s k v) = cacheCount s"
  "cacheCount (snd (getCachedProxy s k)) = cacheCount s"
  "cacheCount (collectResult s a v c q) = cacheCount s"
  by (simp_all add: emit_def arm_timer_def cacheProxy_eq getCachedProxy_eq collectResult_def)

lemmas resolver_eval =
  resolveProxy_def Let_def arm_timer_def emit_def getCachedProxy_def cacheProxy_def
  collectResult_def on_fulfilled_def on_rejected_def map_get_def map_set_def map_size_def
  map_delete_def maxCacheEntries_def connection_of_def first_token_def new_effects_def
  state0_def state1_def env_none_def request0_def pending0_def

lemma state0_awaits: "resolveProxy state0 request0 0 = (state1, Awaiting pending0)"
  by (simp add: resolver_eval engine_eval string_eval)

lemma state0_not_bypassed: "not_bypassed state0 (url_key request0) request0"
  by (simp add: not_bypassed_def resolver_eval engine_eval string_eval)

theorem rejection_handled_witness:
  "resolveProxy state0 request0 0 = (state1, Awaiting pending0) \<and>
   on_rejected state1 pending0 ''ETIMEDOUT'' =
     state0\<lparr>timeout := True, errorCount := 1,
       effects := [SetTimeout, ExternalResolve ''https://example.com/index'', Callback None,
                   Log LError ''ProxyResolver#resolveProxy'' [Str (Some ''ETIMEDOUT'')]]\<rparr>"
proof -
  have v: "errorCount state0 = 0" "effects state0 = []" "\<not> timeout state0"
    "url request0 = ''https://example.com/index''"
    by (simp_all add: state0_def setupProxyResolution_def request0_def)
  from rejection_handled [of state1 pending0 "''ETIMEDOUT''" state0 request0 0 state1] state0_awaits
  have "on_rejected state1 pending0 ''ETIMEDOUT'' =
        state0\<lparr>timeout := True, errorCount := errorCount state0 + 1,
           effects := effects state0 @ (if timeout state0 then [] else [SetTimeout]) @
             [ExternalResolve (url request0), Callback None,
              Log LError ''ProxyResolver#resolveProxy'' [Str (Some ''ETIMEDOUT'')]]\<rparr>"
    by blast
  then show ?thesis using v state0_awaits by simp
qed

section \<open>The bound on the cache\<close>

lemma maxCacheEntries_pos: "1 < maxCacheEntries"
  by (simp add: maxCacheEntries_def)

lemma distinct_map_set: "distinct (map fst m) \<Longrightarrow> distinct (map fst (map_set m k v))"
  by (simp add: map_set_def distinct_update)

lemma distinct_map_delete: "distinct (map fst m) \<Longrightarrow> distinct (map fst (map_delete m k))"
  by (simp add: map_delete_def distinct_delete)

lemma cache_inv_cacheProxy:
  assumes "cache_inv s"
  shows "cache_inv (cacheProxy s k v)"
proof -
  have "map_size (map_set (cache s) k v) \<le> Suc (map_size (cache s))"
    by (simp add: map_size_set)
  with assms show ?thesis
    using maxCacheEntries_pos
    by (auto simp: cache_inv_def cacheProxy_eq distinct_map_set map_size_def)
qed

lemma cache_inv_getCachedProxy:
  assumes "cache_inv s"
  shows "cache_inv (snd (getCachedProxy s k))"
proof -
  have "cache_inv (s\<lparr>oldCache := map_delete (oldCache s) k\<rparr>)"
    using assms map_size_delete [of "oldCache s" k]
    by (auto simp: cache_inv_def distinct_map_delete)
  then show ?thesis
    using assms by (simp add: getCachedProxy_eq cache_inv_cacheProxy)
qed

lemma cache_inv_cong:
  "cache s' = cache s \<Longrightarrow> oldCache s' = oldCache s \<Longrightarrow> cache_inv s' = cache_inv s"
  by (simp add: cache_inv_def)

lemma resolveProxy_generations:
  "(cache (fst (resolveProxy s r now)) = cache s \<and> oldCache (fst (resolveProxy s r now)) = oldCache s) \<or>
   (cache (fst (resolveProxy s r now)) = cache (snd (getCachedProxy (arm_timer s) (url_key r))) \<and>
    oldCache (fst (resolveProxy s r now)) = oldCache (snd (getCachedProxy (arm_timer s) (url_key r))))"
  by (simp add: resolveProxy_def Let_def split_beta collectResult_def split: sum.splits bool.splits)

lemma cache_inv_resolveProxy:
  assumes "cache_inv s"
  shows "cache_inv (fst (resolveProxy s r now))"
proof -
  have "cache_inv (arm_timer s)" using assms by (simp add: cache_inv_def)
  from cache_inv_getCachedProxy [OF this, of "url_key r"] assms resolveProxy_generations [of s r now]
  show ?thesis by (auto simp: cache_inv_def)
qed

lemma fold_listeners_generations:
  assumes "\<And>x s. cache (f x s) = cache s \<and> oldCache (f x s) = oldCache s"
  shows "cache (fold f xs s) = cache s \<and> oldCache (fold f xs s) = oldCache s"
  using assms by (induction xs arbitrary: s) auto

lemma request_response_generations:
  "cache (request_response s q c) = cache s \<and> oldCache (request_response s q c) = oldCache s"
  unfolding request_response_def
  by (rule fold_listeners_generations) (auto simp: on_response_def Let_def)

lemma request_error_generations:
  "cache (request_error s q c) = cache s \<and> oldCache (request_error s q c) = oldCache s"
  unfolding request_error_def
  by (rule fold_listeners_generations) (auto simp: on_error_def Let_def)

lemma cache_inv_step:
  assumes "cache_inv s" "step s e = Some s'"
  shows "cache_inv s'"
proof (cases e)
  case (Resolve r now)
  with assms show ?thesis using cache_inv_resolveProxy by auto
next
  case (Fulfilled p proxy now)
  with assms cache_inv_cacheProxy [of s "p_key p" proxy] show ?thesis
    by (auto simp: cache_inv_def)
next
  case (Rejected p m)
  with assms show ?thesis by (auto simp: cache_inv_def on_rejected_eq)
next
  case TimerFired
  with assms show ?thesis by (auto simp: cache_inv_def logEvent_def Let_def emit_def split: if_splits)
next
  case (Response q c)
  with assms request_response_generations [of s q c] show ?thesis by (auto simp: cache_inv_def)
next
  case (Failed q c)
  with assms request_error_generations [of s q c] show ?thesis by (auto simp: cache_inv_def)
next
  case (ConfigChanged v)
  with assms show ?thesis by (auto simp: cache_inv_def onDidChangeConfiguration_def)
qed

lemma cache_inv_run:
  "cache_inv s \<Longrightarrow> run s es = Some s' \<Longrightarrow> cache_inv s'"
proof (induction es arbitrary: s)
  case Nil
  then show ?case by simp
next
  case (Cons e es)
  then show ?case using cache_inv_step by (auto split: option.splits)
qed

lemma cache_inv_initial: "cache_inv (setupProxyResolution cfg env)"
  by (simp add: cache_inv_def setupProxyResolution_def map_size_def maxCacheEntries_def)


lemma map_set_fresh: "k \<notin> fst ` set m \<Longrightarrow> map_set m k v = m @ [(k, v)]"
  unfolding map_set_def by (induction m) auto

lemma two_less_max: "2 < maxCacheEntries"
  by (simp add: maxCacheEntries_def)

lemma insert_all_Cons: "insert_all s ((k, v) # kvs) = insert_all (cacheProxy s k v) kvs"
  by (simp add: insert_all_def)

lemma insert_all_append: "insert_all s (a @ b) = insert_all (insert_all s a) b"
  by (simp add: insert_all_def)

lemma insert_all_no_roll:
  assumes "distinct (map fst (cache s @ kvs))"
    and "map_size (cache s) + length kvs < maxCacheEntries"
  shows "insert_all s kvs = s\<lparr>cache := cache s @ kvs\<rparr>"
  using assms
proof (induction kvs arbitrary: s)
  case Nil
  then show ?case by (simp add: insert_all_def)
next
  case (Cons a kvs)
  obtain k v where a: "a = (k, v)" by (cases a)
  from Cons.prems(1) a have fresh: "k \<notin> fst ` set (cache s)" by auto
  then have ms: "map_set (cache s) k v = cache s @ [(k, v)]" by (rule map_set_fresh)
  have step: "cacheProxy s k v = s\<lparr>cache := cache s @ [(k, v)]\<rparr>"
    using Cons.prems(2) by (simp add: cacheProxy_eq ms map_size_def)
  have "insert_all (s\<lparr>cache := cache s @ [(k, v)]\<rparr>) kvs =
          s\<lparr>cache := cache s @ [(k, v)]\<rparr>\<lparr>cache := cache (s\<lparr>cache := cache s @ [(k, v)]\<rparr>) @ kvs\<rparr>"
    using Cons.prems a by (intro Cons.IH) (simp_all add: map_size_def)
  then show ?case by (simp add: a insert_all_Cons step)
qed

lemma insert_all_over_capacity:
  assumes d: "distinct (map fst kvs)" and l: "length kvs = maxCacheEntries + 1"
    and e: "cache s = []"
  shows "oldCache (insert_all s kvs) = butlast kvs \<and> cache (insert_all s kvs) = [last kvs] \<and>
         cacheRolls (insert_all s kvs) = cacheRolls s + 1"
proof -
  from l have ne: "kvs \<noteq> []" by auto
  define y where "y = last kvs"
  define b where "b = butlast kvs"
  have kvs: "kvs = b @ [y]" using ne by (simp add: b_def y_def)
  have lb: "length b = maxCacheEntries" using l kvs by simp
  then have nb: "b \<noteq> []" using maxCacheEntries_pos by auto
  define x where "x = last b"
  define a where "a = butlast b"
  have b: "b = a @ [x]" using nb by (simp add: a_def x_def)
  have la: "Suc (length a) = maxCacheEntries" using lb b by simp
  have da: "distinct (map fst (cache s @ a))" using d kvs b e by simp
  have "insert_all s a = s\<lparr>cache := a\<rparr>"
    using insert_all_no_roll [OF da] la e by (simp add: map_size_def)
  moreover have "fst x \<notin> fst ` set a" using d kvs b by auto
  then have "map_set a (fst x) (snd x) = b" by (simp add: map_set_fresh b)
  then have "cacheProxy (s\<lparr>cache := a\<rparr>) (fst x) (snd x) =
      s\<lparr>oldCache := b, cache := [], cacheRolls := cacheRolls s + 1,
        effects := effects s @ [Log LTrace ''ProxyResolver#cacheProxy cacheRolls'' [Num (cacheRolls s + 1)]]\<rparr>"
    using lb by (simp add: cacheProxy_eq map_size_def)
  ultimately have 1: "insert_all s b =
      s\<lparr>oldCache := b, cache := [], cacheRolls := cacheRolls s + 1,
        effects := effects s @ [Log LTrace ''ProxyResolver#cacheProxy cacheRolls'' [Num (cacheRolls s + 1)]]\<rparr>"
    by (simp add: b insert_all_append insert_all_def split_beta)
  have "insert_all s kvs = cacheProxy (insert_all s b) (fst y) (snd y)"
    by (simp add: kvs insert_all_append insert_all_def split_beta)
  then show ?thesis
    unfolding 1 b_def [symmetric] y_def [symmetric]
    using maxCacheEntries_pos
    by (simp add: cacheProxy_eq map_set_def map_size_def)
qed

lemma promoted_after_roll:
  assumes d: "distinct (map fst kvs)" and l: "length kvs = maxCacheEntries + 1"
    and e: "cache s = []" and m: "(k, v) \<in> set (butlast kvs)" and t: "truthy v"
  shows "fst (getCachedProxy (insert_all s kvs) k) = v \<and>
         map_get (cache (snd (getCachedProxy (insert_all s kvs) k))) k = v \<and>
         k \<notin> fst ` set (oldCache (snd (getCachedProxy (insert_all s kvs) k)))"
proof -
  let ?t = "insert_all s kvs"
  define y where "y = last kvs"
  define b where "b = butlast kvs"
  from insert_all_over_capacity [OF d l e]
  have o: "oldCache ?t = b" and c: "cache ?t = [y]" by (auto simp: b_def y_def)
  from l have ne: "kvs \<noteq> []" by auto
  then have kvs: "kvs = b @ [y]" by (simp add: b_def y_def)
  have db: "distinct (map fst b)" and yb: "fst y \<notin> fst ` set b"
    using d unfolding kvs by auto
  from m have mb: "(k, v) \<in> set b" by (simp add: b_def)
  have kl: "k \<noteq> fst y"
  proof
    assume "k = fst y"
    with mb have "fst y \<in> fst ` set b" by (metis fst_conv image_eqI)
    with yb show False by simp
  qed
  have g1: "map_get (cache ?t) k = None"
    using kl by (cases y) (simp add: c map_get_def)
  have "map_of b k = Some v"
    using db mb by simp
  then have g2: "map_get (oldCache ?t) k = v"
    by (simp add: o map_get_def)
  have ms: "map_set [y] k v = [y, (k, v)]"
    using kl by (cases y) (simp add: map_set_def)
  have gp: "getCachedProxy ?t k =
      (v, cacheProxy (?t\<lparr>oldCache := map_delete b k\<rparr>) k v)"
    using g1 g2 t by (simp add: getCachedProxy_eq js_or_def o)
  have cp: "cacheProxy (?t\<lparr>oldCache := map_delete b k\<rparr>) k v =
      ?t\<lparr>oldCache := map_delete b k, cache := [y, (k, v)]\<rparr>"
    using two_less_max by (simp add: cacheProxy_eq c ms map_size_def)
  have "map_get [y, (k, v)] k = v"
    using kl by (cases y) (simp add: map_get_def)
  moreover have "k \<notin> fst ` set (map_delete b k)"
    by (simp add: map_delete_def delete_notin_dom)
  ultimately show ?thesis
    unfolding gp cp b_def [symmetric] by simp
qed

lemma discarded_after_roll:
  assumes "maxCacheEntries \<le> map_size (map_set (cache s) k v)"
    and "k' \<noteq> k" "k' \<notin> fst ` set (cache s)"
  shows "fst (getCachedProxy (cacheProxy s k v) k') = None"
proof -
  have "map_of (cache s) k' = None" using assms(3) by (simp add: map_of_eq_None_iff)
  then have "map_get (cache s) k' = None" by (simp add: map_get_def)
  then have "map_get (map_set (cache s) k v) k' = None"
    using assms(2) by (simp add: map_get_set)
  then show ?thesis
    using assms(1) by (simp add: getCachedProxy_eq cacheProxy_eq js_or_def)
qed

text \<open>
  Claim C2. The two generations of the cache. A lookup takes a usable value of the
  current generation as it is and leaves the cache alone; a value found in the previous
  generation only is deleted there and inserted into the current one; a lookup that
  finds nothing changes nothing. An insertion that brings the current generation to the
  capacity of 5000 entries makes it the previous generation, whose former entries are
  no longer found, and starts an empty current one. In every state that a run of the
  resolver reaches, the current generation holds fewer entries than the capacity and the
  previous one at most as many, so both together hold fewer than twice the capacity.
  After 5000 + 1 insertions with different keys into an empty current generation, the
  first 5000 entries form the previous generation and each of them with a usable value
  is still found, and by that moved to the current generation.
\<close>

theorem two_generation_cache:
  "(truthy (map_get (cache s) k) \<longrightarrow> getCachedProxy s k = (map_get (cache s) k, s)) \<and>
   (\<not> truthy (map_get (cache s) k) \<and> truthy (map_get (oldCache s) k) \<longrightarrow>
      getCachedProxy s k =
        (map_get (oldCache s) k,
         cacheProxy (s\<lparr>oldCache := map_delete (oldCache s) k\<rparr>) k (map_get (oldCache s) k)) \<and>
      k \<notin> fst ` set (map_delete (oldCache s) k)) \<and>
   (\<not> truthy (map_get (cache s) k) \<and> \<not> truthy (map_get (oldCache s) k) \<longrightarrow>
      \<not> truthy (fst (getCachedProxy s k)) \<and> snd (getCachedProxy s k) = s) \<and>
   (if maxCacheEntries \<le> map_size (map_set (cache s) k v)
    then oldCache (cacheProxy s k v) = map_set (cache s) k v \<and>
         cache (cacheProxy s k v) = [] \<and>
         cacheRolls (cacheProxy s k v) = cacheRolls s + 1 \<and>
         (\<forall>k'. k' \<noteq> k \<and> k' \<notin> fst ` set (cache s) \<longrightarrow>
               fst (getCachedProxy (cacheProxy s k v) k') = None)
    else oldCache (cacheProxy s k v) = oldCache s \<and>
         cache (cacheProxy s k v) = map_set (cache s) k v \<and>
         cacheRolls (cacheProxy s k v) = cacheRolls s) \<and>
   (run (setupProxyResolution cfg env) evs = Some s' \<longrightarrow>
      map_size (cache s') < maxCacheEntries \<and> map_size (oldCache s') \<le> maxCacheEntries \<and>
      map_size (cache s') + map_size (oldCache s') < 2 * maxCacheEntries) \<and>
   (distinct (map fst kvs) \<and> length kvs = maxCacheEntries + 1 \<and> cache s = [] \<longrightarrow>
      oldCache (insert_all s kvs) = butlast kvs \<and> cache (insert_all s kvs) = [last kvs] \<and>
      (\<forall>(k, v) \<in> set (butlast kvs). truthy v \<longrightarrow>
          fst (getCachedProxy (insert_all s kvs) k) = v \<and>
          map_get (cache (snd (getCachedProxy (insert_all s kvs) k))) k = v \<and>
          k \<notin> fst ` set (oldCache (snd (getCachedProxy (insert_all s kvs) k))))) \<and>
   maxCacheEntries = 5000"
proof (intro conjI)
  show "truthy (map_get (cache s) k) \<longrightarrow> getCachedProxy s k = (map_get (cache s) k, s)"
    by (simp add: getCachedProxy_eq js_or_def)
  show "\<not> truthy (map_get (cache s) k) \<and> truthy (map_get (oldCache s) k) \<longrightarrow>
      getCachedProxy s k =
        (map_get (oldCache s) k,
         cacheProxy (s\<lparr>oldCache := map_delete (oldCache s) k\<rparr>) k (map_get (oldCache s) k)) \<and>
      k \<notin> fst ` set (map_delete (oldCache s) k)"
    by (simp add: getCachedProxy_eq js_or_def map_delete_def delete_notin_dom)
  show "\<not> truthy (map_get (cache s) k) \<and> \<not> truthy (map_get (oldCache s) k) \<longrightarrow>
      \<not> truthy (fst (getCachedProxy s k)) \<and> snd (getCachedProxy s k) = s"
    by (simp add: getCachedProxy_eq js_or_def)
  show "if maxCacheEntries \<le> map_size (map_set (cache s) k v)
    then oldCache (cacheProxy s k v) = map_set (cache s) k v \<and>
         cache (cacheProxy s k v) = [] \<and>
         cacheRolls (cacheProxy s k v) = cacheRolls s + 1 \<and>
         (\<forall>k'. k' \<noteq> k \<and> k' \<notin> fst ` set (cache s) \<longrightarrow>
               fst (getCachedProxy (cacheProxy s k v) k') = None)
    else oldCache (cacheProxy s k v) = oldCache s \<and>
         cache (cacheProxy s k v) = map_set (cache s) k v \<and>
         cacheRolls (cacheProxy s k v) = cacheRolls s"
    using discarded_after_roll [of s k v] by (simp add: cacheProxy_eq)
  show "run (setupProxyResolution cfg env) evs = Some s' \<longrightarrow>
      map_size (cache s') < maxCacheEntries \<and> map_size (oldCache s') \<le> maxCacheEntries \<and>
      map_size (cache s') + map_size (oldCache s') < 2 * maxCacheEntries"
    using cache_inv_run [OF cache_inv_initial, of cfg env evs s'] by (auto simp: cache_inv_def)
  show "distinct (map fst kvs) \<and> length kvs = maxCacheEntries + 1 \<and> cache s = [] \<longrightarrow>
      oldCache (insert_all s kvs) = butlast kvs \<and> cache (insert_all s kvs) = [last kvs] \<and>
      (\<forall>(k, v) \<in> set (butlast kvs). truthy v \<longrightarrow>
          fst (getCachedProxy (insert_all s kvs) k) = v \<and>
          map_get (cache (snd (getCachedProxy (insert_all s kvs) k))) k = v \<and>
          k \<notin> fst ` set (oldCache (snd (getCachedProxy (insert_all s kvs) k))))"
    using insert_all_over_capacity [of kvs s] promoted_after_roll [of kvs s] by blast
  show "maxCacheEntries = 5000" by (rule maxCacheEntries_def)
qed

lemma many_entries_facts:
  "distinct (map fst many_entries)" "length many_entries = maxCacheEntries + 1"
  "(''kkk'', Some ''DIRECT'') \<in> set (butlast many_entries)"
proof -
  let ?f = "\<lambda>n. (replicate n CHR ''k'', Some ''DIRECT'')"
  have "inj_on (\<lambda>n. replicate n CHR ''k'') A" for A
    by (rule inj_onI) (metis length_replicate)
  then show "distinct (map fst many_entries)"
    by (simp add: many_entries_def comp_def distinct_map del: upt_Suc)
  show "length many_entries = maxCacheEntries + 1"
    by (simp add: many_entries_def del: upt_Suc)
  have "[0..<Suc maxCacheEntries] = [0..<maxCacheEntries] @ [maxCacheEntries]" by simp
  then have m: "many_entries = map ?f [0..<maxCacheEntries] @ [?f maxCacheEntries]"
    by (simp add: many_entries_def del: upt_Suc)
  have b: "butlast many_entries = map ?f [0..<maxCacheEntries]"
    by (subst m) (rule butlast_snoc)
  have "(3::nat) \<in> set [0..<maxCacheEntries]" by (simp add: maxCacheEntries_def)
  then have "?f 3 \<in> set (map ?f [0..<maxCacheEntries])" by (simp only: set_map) (rule imageI)
  moreover have "?f 3 = (''kkk'', Some ''DIRECT'')" by (simp add: numeral_3_eq_3)
  ultimately show "(''kkk'', Some ''DIRECT'') \<in> set (butlast many_entries)"
    unfolding b by simp
qed

theorem two_generation_cache_witness:
  "run state0 [Resolve request0 0, Fulfilled pending0 (Some ''DIRECT'') 5]
     = Some (on_fulfilled state1 pending0 (Some ''DIRECT'') 5) \<and>
   map_size (cache (on_fulfilled state1 pending0 (Some ''DIRECT'') 5)) +
     map_size (oldCache (on_fulfilled state1 pending0 (Some ''DIRECT'') 5)) < 2 * maxCacheEntries \<and>
   distinct (map fst many_entries) \<and> length many_entries = maxCacheEntries + 1 \<and>
   fst (getCachedProxy (insert_all state0 many_entries) ''kkk'') = Some ''DIRECT'' \<and>
   map_get (cache (snd (getCachedProxy (insert_all state0 many_entries) ''kkk''))) ''kkk''
     = Some ''DIRECT''"
proof -
  have r: "run (setupProxyResolution None env_none) [Resolve request0 0, Fulfilled pending0 (Some ''DIRECT'') 5]
     = Some (on_fulfilled state1 pending0 (Some ''DIRECT'') 5)"
    using state0_awaits by (simp add: state0_def)
  have c: "cache state0 = []" by (simp add: state0_def setupProxyResolution_def)
  note t = two_generation_cache [of state0 "''kkk''" None None env_none
      "[Resolve request0 0, Fulfilled pending0 (Some ''DIRECT'') 5]"
      "on_fulfilled state1 pending0 (Some ''DIRECT'') 5" many_entries]
  note t5 = t [THEN conjunct2, THEN conjunct2, THEN conjunct2, THEN conjunct2, THEN conjunct1]
  note t6 = t [THEN conjunct2, THEN conjunct2, THEN conjunct2, THEN conjunct2, THEN conjunct2,
     THEN conjunct1]
  from t5 [rule_format, OF r]
  have 1: "map_size (cache (on_fulfilled state1 pending0 (Some ''DIRECT'') 5)) +
     map_size (oldCache (on_fulfilled state1 pending0 (Some ''DIRECT'') 5)) < 2 * maxCacheEntries"
    by (rule conjunct2 [THEN conjunct2])
  have h: "distinct (map fst many_entries) \<and> length many_entries = maxCacheEntries + 1 \<and>
     cache state0 = []"
    using many_entries_facts(1,2) c by (intro conjI)
  from t6 [rule_format, OF h]
  have "\<forall>(k, v) \<in> set (butlast many_entries). truthy v \<longrightarrow>
          fst (getCachedProxy (insert_all state0 many_entries) k) = v \<and>
          map_get (cache (snd (getCachedProxy (insert_all state0 many_entries) k))) k = v \<and>
          k \<notin> fst ` set (oldCache (snd (getCachedProxy (insert_all state0 many_entries) k)))"
    by (rule conjunct2 [THEN conjunct2])
  from bspec [OF this many_entries_facts(3)]
  have 2: "fst (getCachedProxy (insert_all state0 many_entries) ''kkk'') = Some ''DIRECT'' \<and>
      map_get (cache (snd (getCachedProxy (insert_all state0 many_entries) ''kkk''))) ''kkk''
        = Some ''DIRECT''"
    by simp
  from r 1 2 many_entries_facts(1,2) show ?thesis by (simp add: state0_def)
qed

section \<open>Outcome buckets\<close>

lemma fold_other_requests:
  "\<forall>(r, l) \<in> set ls. r \<noteq> q \<Longrightarrow> fold (\<lambda>(r, l) s. if r = q then f l s else s) ls s = s"
  by (induction ls arbitrary: s) auto

lemma request_response_append:
  "q \<notin> fst ` set (listeners s) \<Longrightarrow> listeners s' = listeners s @ ls \<Longrightarrow>
   request_response s' q n = fold (\<lambda>(r, l) s. if r = q then on_response l n s else s) ls s'"
proof -
  assume a: "q \<notin> fst ` set (listeners s)" and b: "listeners s' = listeners s @ ls"
  from a have "\<forall>(r, l) \<in> set (listeners s). r \<noteq> q" by force
  from fold_other_requests [OF this, of "\<lambda>l. on_response l n" s'] b
  show ?thesis by (simp add: request_response_def)
qed

lemma listeners_on_response [simp]: "listeners (on_response l n s) = listeners s"
  by (simp add: on_response_def Let_def)

lemma results_on_response [simp]: "results (on_response l n s) = results s"
  by (simp add: on_response_def Let_def)

text \<open>
  Claim C4, as amended. When outcome collection has been started for two requests
  with the same proxy specification and connection kind in one telemetry period that
  has no bucket yet, and both requests get a response with the same status, the
  period's buckets are exactly one bucket with count 2, whose code is \<open>HTTP_\<close> followed
  by the status and whose proxy field is the first white-space-separated token of the
  trimmed specification, or \<open>EMPTY\<close> for a specification that is falsy. For the
  specification \<open>PROXY a:b\<close> and status 200 that token is \<open>PROXY\<close>, so the bucket is
  \<open>PROXY\<close>, \<open>HTTP\<close>, \<open>HTTP_200\<close>, 2. (The claim as stated names \<open>a:b\<close> as the proxy
  field: see the counterexample below.)
\<close>

theorem two_outcomes_one_bucket:
  "(q1 \<noteq> q2 \<and> q1 \<notin> fst ` set (listeners s) \<and> q2 \<notin> fst ` set (listeners s) \<and>
    arrays s (results s) = [] \<longrightarrow>
    (let s1 = collectResult s (results s) spec connection q1;
         s2 = collectResult s1 (results s1) spec connection q2;
         s3 = request_response s2 q1 n;
         s4 = request_response s3 q2 n
     in arrays s4 (results s4) =
          [\<lparr>cr_proxy = (if truthy spec then first_token (trim (or_empty spec)) else ''EMPTY''),
            cr_connection = connection, cr_code = ''HTTP_'' @ decimal n, cr_count = 2\<rparr>])) \<and>
   first_token (trim ''PROXY a:b'') = ''PROXY'' \<and> decimal 200 = ''200''"
proof (intro conjI impI)
  assume a: "q1 \<noteq> q2 \<and> q1 \<notin> fst ` set (listeners s) \<and> q2 \<notin> fst ` set (listeners s) \<and>
   arrays s (results s) = []"
  let ?p = "if truthy spec then first_token (trim (or_empty spec)) else ''EMPTY''"
  let ?l = "\<lparr>l_results = results s, l_proxy = ?p, l_connection = connection\<rparr>"
  let ?s2 = "collectResult (collectResult s (results s) spec connection q1)
               (results (collectResult s (results s) spec connection q1)) spec connection q2"
  have l2: "listeners ?s2 = listeners s @ [(q1, ?l), (q2, ?l)]"
    by (simp add: collectResult_def)
  have r3: "request_response ?s2 q1 n = on_response ?l n ?s2"
    using a by (simp add: request_response_append [OF _ l2])
  have l3: "listeners (on_response ?l n ?s2) = listeners s @ [(q1, ?l), (q2, ?l)]"
    using l2 by simp
  have r4: "request_response (on_response ?l n ?s2) q2 n = on_response ?l n (on_response ?l n ?s2)"
    using a by (simp add: request_response_append [OF _ l3])
  have "arrays ?s2 (results s) = []" "results ?s2 = results s"
    using a by (simp_all add: collectResult_def)
  then have "arrays (on_response ?l n (on_response ?l n ?s2)) (results s) =
      [\<lparr>cr_proxy = ?p, cr_connection = connection, cr_code = ''HTTP_'' @ decimal n, cr_count = 2\<rparr>]"
    by (simp add: on_response_def Let_def findOrCreateResult_def count_up_def)
  then show "let s1 = collectResult s (results s) spec connection q1;
        s2 = collectResult s1 (results s1) spec connection q2;
        s3 = request_response s2 q1 n;
        s4 = request_response s3 q2 n
    in arrays s4 (results s4) =
         [\<lparr>cr_proxy = ?p, cr_connection = connection, cr_code = ''HTTP_'' @ decimal n, cr_count = 2\<rparr>]"
    unfolding Let_def r3 r4 by (simp add: collectResult_def)
next
  show "first_token (trim ''PROXY a:b'') = ''PROXY''"
    by (simp add: first_token_def string_eval)
  show "decimal 200 = ''200''"
    by (simp add: decimal.simps)
qed

lemmas outcome_eval =
  request_response_def on_response_def findOrCreateResult_def count_up_def
  request_a_def request_b_def pending_a_def

text \<open>
  The sample run of two requests through \<open>PROXY a:b\<close>, both answered with status 200: the
  one bucket has the proxy field \<open>PROXY\<close>, not \<open>a:b\<close>.
\<close>

theorem two_outcomes_one_bucket_counterexample:
  "snd (resolveProxy state0 request_a 0) = Awaiting pending_a \<and>
   callbacks (effects after_two_requests) = [Some ''PROXY a:b'', Some ''PROXY a:b''] \<and>
   run state0 two_requests = Some after_two_requests \<and>
   arrays after_two_requests (results after_two_requests) =
     [\<lparr>cr_proxy = ''PROXY'', cr_connection = ''HTTP'', cr_code = ''HTTP_200'', cr_count = 2\<rparr>] \<and>
   arrays after_two_requests (results after_two_requests) \<noteq>
     [\<lparr>cr_proxy = ''a:b'', cr_connection = ''HTTP'', cr_code = ''HTTP_200'', cr_count = 2\<rparr>]"
  by (simp add: after_two_requests_def two_requests_def outcome_eval resolver_eval engine_eval string_eval)


theorem two_outcomes_one_bucket_witness:
  "(let s1 = collectResult state0 (results state0) (Some ''PROXY a:b'') ''HTTP'' 1;
        s2 = collectResult s1 (results s1) (Some ''PROXY a:b'') ''HTTP'' 2;
        s3 = request_response s2 1 200;
        s4 = request_response s3 2 200
    in arrays s4 (results s4) =
         [\<lparr>cr_proxy = ''PROXY'', cr_connection = ''HTTP'', cr_code = ''HTTP_200'', cr_count = 2\<rparr>])"
proof -
  have h: "(1::nat) \<noteq> 2 \<and> 1 \<notin> fst ` set (listeners state0) \<and> 2 \<notin> fst ` set (listeners state0) \<and>
     arrays state0 (results state0) = []"
    by (simp add: state0_def setupProxyResolution_def)
  note t = two_outcomes_one_bucket [of 1 2 state0 "Some ''PROXY a:b''" "''HTTP''" 200]
  from t have e: "first_token (trim ''PROXY a:b'') = ''PROXY''" "decimal 200 = ''200''"
    by blast+
  from t [THEN conjunct1, rule_format, OF h] show ?thesis
    by (simp add: or_empty_eq e)
qed

section \<open>The flush timer\<close>




lemma quiet_cacheProxy: "quiet_step s (cacheProxy s k v)"
  by (simp add: quiet_step_def cacheProxy_eq)


lemma quiet_collectResult: "quiet_step s (collectResult s (results s) v c q)"
  by (simp add: quiet_step_def collectResult_def)



lemma timeout_kept [simp]:
  "timeout (cacheProxy s k v) = timeout s"
  "timeout (snd (getCachedProxy s k)) = timeout s"
  "timeout (collectResult s a v c q) = timeout s"
  "timeout (on_fulfilled s p v now) = timeout s"
  "timeout (on_rejected s p m) = timeout s"
  by (simp_all add: cacheProxy_eq getCachedProxy_eq collectResult_def on_fulfilled_eq
        on_rejected_eq Let_def)

lemma arrays_kept [simp]:
  "arrays (emit e s) = arrays s"
  "arrays (arm_timer s) = arrays s"
  "arrays (cacheProxy s k v) = arrays s"
  "arrays (snd (getCachedProxy s k)) = arrays s"
  "arrays (collectResult s a v c q) = arrays s"
  "arrays (on_fulfilled s p v now) = arrays s"
  "arrays (on_rejected s p m) = arrays s"
  by (simp_all add: emit_def arm_timer_def cacheProxy_eq getCachedProxy_eq collectResult_def
        on_fulfilled_eq on_rejected_eq Let_def)

lemma results_kept [simp]:
  "results (emit e s) = results s"
  "results (arm_timer s) = results s"
  "results (cacheProxy s k v) = results s"
  "results (snd (getCachedProxy s k)) = results s"
  "results (collectResult s a v c q) = results s"
  "results (on_fulfilled s p v now) = results s"
  "results (on_rejected s p m) = results s"
  by (simp_all add: emit_def arm_timer_def cacheProxy_eq getCachedProxy_eq collectResult_def
        on_fulfilled_eq on_rejected_eq Let_def)



lemma arrays_resolveProxy: "arrays (fst (resolveProxy s r now)) = arrays s"
  by (simp add: resolveProxy_def Let_def split_beta
        split: sum.splits bool.splits)

lemma fold_handlers_frame:
  assumes h: "\<And>l s. \<exists>X. h l s = s\<lparr>arrays := (arrays s)(l_results l := X)\<rparr>"
  shows "\<exists>A. fold (\<lambda>(r, l) s. if r = q then h l s else s) ls s = s\<lparr>arrays := A\<rparr> \<and>
             (\<forall>a. (\<forall>(r, l) \<in> set ls. l_results l \<noteq> a) \<longrightarrow> A a = arrays s a)"
proof (induction ls arbitrary: s)
  case Nil
  have "s = s\<lparr>arrays := arrays s\<rparr>" by simp
  then show ?case by (metis fold_simps(1) empty_iff list.set(1))
next
  case (Cons x ls)
  obtain r l where x: "x = (r, l)" by (cases x)
  let ?f = "\<lambda>(r, l) s. if r = q then h l s else s"
  from h [of l s] obtain X where X: "h l s = s\<lparr>arrays := (arrays s)(l_results l := X)\<rparr>" by blast
  define A1 where "A1 = (if r = q then (arrays s)(l_results l := X) else arrays s)"
  have s1: "?f x s = s\<lparr>arrays := A1\<rparr>" by (simp add: x X A1_def)
  from Cons.IH [of "s\<lparr>arrays := A1\<rparr>"] obtain A where
    A: "fold ?f ls (s\<lparr>arrays := A1\<rparr>) = s\<lparr>arrays := A1\<rparr>\<lparr>arrays := A\<rparr>"
       "\<forall>a. (\<forall>(r, l) \<in> set ls. l_results l \<noteq> a) \<longrightarrow> A a = arrays (s\<lparr>arrays := A1\<rparr>) a"
    by blast
  have "fold ?f (x # ls) s = s\<lparr>arrays := A\<rparr>"
    using A(1) s1 by simp
  moreover have "\<forall>a. (\<forall>(r, l) \<in> set (x # ls). l_results l \<noteq> a) \<longrightarrow> A a = arrays s a"
    using A(2) by (auto simp: x A1_def)
  ultimately show ?case by blast
qed

lemma request_response_frame:
  "\<exists>A. request_response s q n = s\<lparr>arrays := A\<rparr> \<and>
       (\<forall>a. (\<forall>(r, l) \<in> set (listeners s). l_results l \<noteq> a) \<longrightarrow> A a = arrays s a)"
  unfolding request_response_def
  by (rule fold_handlers_frame) (auto simp: on_response_def Let_def)

lemma request_error_frame:
  "\<exists>A. request_error s q c = s\<lparr>arrays := A\<rparr> \<and>
       (\<forall>a. (\<forall>(r, l) \<in> set (listeners s). l_results l \<noteq> a) \<longrightarrow> A a = arrays s a)"
  unfolding request_error_def
  by (rule fold_handlers_frame) (auto simp: on_error_def Let_def)




lemma logEvent_eq:
  "logEvent s =
     s\<lparr>timeout := False, effects := effects s @ [PublicLog (snapshot s)],
       count := 0, duration := 0, errorCount := 0, cacheCount := 0, envCount := 0,
       settingsCount := 0, localhostCount := 0, envNoProxyCount := 0,
       results := Suc (results s), arrays := (arrays s)(Suc (results s) := [])\<rparr>"
  by (simp add: logEvent_def Let_def emit_def snapshot_def)










lemma counters_kept [simp]:
  "localhostCount (arm_timer s) = localhostCount s"
  "envNoProxyCount (arm_timer s) = envNoProxyCount s"
  "settingsCount (arm_timer s) = settingsCount s"
  "envCount (arm_timer s) = envCount s"
  "count (arm_timer s) = count s"
  "duration (arm_timer s) = duration s"
  "errorCount (arm_timer s) = errorCount s"
  "localhostCount (snd (getCachedProxy s k)) = localhostCount s"
  "envNoProxyCount (snd (getCachedProxy s k)) = envNoProxyCount s"
  "settingsCount (snd (getCachedProxy s k)) = settingsCount s"
  "envCount (snd (getCachedProxy s k)) = envCount s"
  "count (snd (getCachedProxy s k)) = count s"
  "duration (snd (getCachedProxy s k)) = duration s"
  "errorCount (snd (getCachedProxy s k)) = errorCount s"
  by (simp_all add: emit_def arm_timer_def cacheProxy_eq getCachedProxy_eq)










section \<open>Runs and the cache\<close>

lemma generations_arm [simp]: "generations (arm_timer s) = generations s"
  by (simp add: generations_def)

lemma generations_getCachedProxy_arm:
  "generations (snd (getCachedProxy (arm_timer s) k)) = generations (snd (getCachedProxy s k))"
  by (simp add: generations_def getCachedProxy_eq cacheProxy_eq)

lemma generations_resolveProxy:
  "generations (fst (resolveProxy s r now)) = generations s \<or>
   generations (fst (resolveProxy s r now)) = generations (snd (getCachedProxy s (url_key r)))"
proof -
  have "generations (fst (resolveProxy s r now)) = generations (arm_timer s) \<or>
    generations (fst (resolveProxy s r now)) =
      generations (snd (getCachedProxy (arm_timer s) (url_key r)))"
    by (simp add: generations_def resolveProxy_def Let_def split_beta collectResult_def
          split: sum.splits bool.splits)
  then show ?thesis by (simp add: generations_getCachedProxy_arm)
qed

lemma generations_step:
  assumes "step s e = Some s'"
  shows "(case e of
            Fulfilled p v t \<Rightarrow> generations s' = generations (cacheProxy s (p_key p) v)
          | Resolve r now \<Rightarrow>
              generations s' = generations s \<or>
              generations s' = generations (snd (getCachedProxy s (url_key r)))
          | _ \<Rightarrow> generations s' = generations s)"
proof (cases e)
  case (Resolve r now)
  with assms generations_resolveProxy [of s r now] show ?thesis by auto
next
  case (Fulfilled p v t)
  with assms show ?thesis by (auto simp: generations_def)
next
  case (Rejected p m)
  with assms show ?thesis by (auto simp: generations_def on_rejected_eq)
next
  case TimerFired
  with assms show ?thesis by (auto simp: generations_def logEvent_eq split: if_splits)
next
  case (Response q c)
  from request_response_frame [of s q c] obtain A where "request_response s q c = s\<lparr>arrays := A\<rparr>"
    by blast
  with assms Response show ?thesis by (auto simp: generations_def)
next
  case (Failed q c)
  from request_error_frame [of s q c] obtain A where "request_error s q c = s\<lparr>arrays := A\<rparr>"
    by blast
  with assms Failed show ?thesis by (auto simp: generations_def)
next
  case (ConfigChanged v)
  with assms show ?thesis by (auto simp: generations_def onDidChangeConfiguration_def)
qed

lemma settings_resolveProxy:
  "settingsProxy (fst (resolveProxy s r now)) = settingsProxy s \<and>
   envProxy (fst (resolveProxy s r now)) = envProxy s \<and>
   envNoProxy (fst (resolveProxy s r now)) = envNoProxy s"
  by (simp add: resolveProxy_def Let_def split_beta collectResult_def emit_def arm_timer_def
        getCachedProxy_eq cacheProxy_eq split: sum.splits bool.splits)

lemma config_step:
  assumes "step s e = Some s'"
  shows "envProxy s' = envProxy s \<and> envNoProxy s' = envNoProxy s \<and>
         (\<not> config_change e \<longrightarrow> settingsProxy s' = settingsProxy s)"
proof (cases e)
  case (Resolve r now)
  with assms settings_resolveProxy [of s r now] show ?thesis by auto
next
  case (Fulfilled p v t)
  with assms show ?thesis by auto
next
  case (Rejected p m)
  with assms show ?thesis by (auto simp: on_rejected_eq)
next
  case TimerFired
  with assms show ?thesis by (auto simp: logEvent_eq split: if_splits)
next
  case (Response q c)
  from request_response_frame [of s q c] obtain A where "request_response s q c = s\<lparr>arrays := A\<rparr>"
    by blast
  with assms Response show ?thesis by auto
next
  case (Failed q c)
  from request_error_frame [of s q c] obtain A where "request_error s q c = s\<lparr>arrays := A\<rparr>"
    by blast
  with assms Failed show ?thesis by auto
next
  case (ConfigChanged v)
  with assms show ?thesis by (auto simp: onDidChangeConfiguration_def)
qed

lemma config_run:
  "run s es = Some s' \<Longrightarrow>
   envProxy s' = envProxy s \<and> envNoProxy s' = envNoProxy s \<and>
   ((\<forall>e \<in> set es. \<not> config_change e) \<longrightarrow> settingsProxy s' = settingsProxy s)"
proof (induction es arbitrary: s)
  case Nil
  then show ?case by simp
next
  case (Cons e es)
  from Cons.prems obtain s1 where s1: "step s e = Some s1" "run s1 es = Some s'"
    by (auto split: option.splits)
  from config_step [OF s1(1)] Cons.IH [OF s1(2)] show ?case by auto
qed

lemma cacheRolls_mono_step: "step s e = Some s' \<Longrightarrow> cacheRolls s \<le> cacheRolls s'"
  using generations_step [of s e s']
  by (cases e) (auto simp: generations_def cacheProxy_eq getCachedProxy_eq split: if_splits)









lemma resolveProxy_hit:
  assumes "\<not> truthy (settingsProxy s)" "\<not> truthy (envProxy s)"
    and v: "js_or (map_get (cache s) (url_key r)) (map_get (oldCache s) (url_key r)) = v" "truthy v"
    and nb: "not_bypassed s (url_key r) r"
  shows "snd (resolveProxy s r now) = Returned \<and>
         callbacks (new_effects s (fst (resolveProxy s r now))) = [v] \<and>
         external_calls (new_effects s (fst (resolveProxy s r now))) = [] \<and>
         cacheCount (fst (resolveProxy s r now)) = cacheCount s + 1"
proof -
  from nb obtain port where r:
    "url_hostname r \<notin> {Some ''localhost'', Some ''127.0.0.1'', Some ''::1'', Some ''::ffff:127.0.0.1''}"
    "port_argument r = Inr port" "callNoProxy (envNoProxy s) (url_hostname r) port = Inr False"
    unfolding not_bypassed_def by blast
  have g: "fst (getCachedProxy (arm_timer s) (url_key r)) = v"
    using v(1) by (simp add: fst_getCachedProxy)
  show ?thesis
    unfolding resolveProxy_chain [OF r] Let_def using assms(1,2) v(2)
    by (simp add: g new_effects_def effects_emit effects_getCachedProxy effects_arm_timer)
qed


lemma unserved_cong:
  "generations s' = generations s \<Longrightarrow> unserved k s' = unserved k s"
  by (simp add: generations_def unserved_def)

lemma unserved_cacheProxy:
  assumes "unserved k s" "k' = k \<longrightarrow> \<not> truthy v'"
  shows "unserved k (cacheProxy s k' v')"
  using assms by (auto simp: unserved_def cacheProxy_eq map_get_set)

lemma unserved_getCachedProxy:
  assumes "unserved k s"
  shows "unserved k (snd (getCachedProxy s k'))"
proof (cases "\<not> truthy (map_get (cache s) k') \<and> truthy (map_get (oldCache s) k')")
  case False
  then have "snd (getCachedProxy s k') = s" by (auto simp: getCachedProxy_eq)
  with assms show ?thesis by simp
next
  case True
  with assms have ne: "k' \<noteq> k" by (auto simp: unserved_def)
  have "unserved k (s\<lparr>oldCache := map_delete (oldCache s) k'\<rparr>)"
    using assms ne by (auto simp: unserved_def map_get_delete)
  from unserved_cacheProxy [OF this, of k' "map_get (oldCache s) k'"] ne True
  show ?thesis by (simp add: getCachedProxy_eq)
qed

lemma unserved_step:
  assumes u: "unserved k s" and st: "step s e = Some s'" and nu: "\<not> stores_usable k e"
  shows "unserved k s'"
proof -
  have via: "unserved k s'" if "generations s' = generations t" "unserved k t" for t
    using unserved_cong [of s' t k] that by simp
  show ?thesis
  proof (cases e)
    case (Resolve r now)
    with generations_step [OF st]
    have "generations s' = generations s \<or>
          generations s' = generations (snd (getCachedProxy s (url_key r)))" by simp
    then show ?thesis
    proof
      assume "generations s' = generations s"
      from via [OF this u] show ?thesis .
    next
      assume g: "generations s' = generations (snd (getCachedProxy s (url_key r)))"
      from via [OF g unserved_getCachedProxy [OF u]] show ?thesis .
    qed
  next
    case (Fulfilled p v t)
    with generations_step [OF st]
    have g: "generations s' = generations (cacheProxy s (p_key p) v)" by simp
    from Fulfilled nu have "p_key p = k \<longrightarrow> \<not> truthy v" by simp
    from via [OF g unserved_cacheProxy [OF u this]] show ?thesis .
  next
    case (Rejected p m)
    with generations_step [OF st] have "generations s' = generations s" by simp
    from via [OF this u] show ?thesis .
  next
    case TimerFired
    with generations_step [OF st] have "generations s' = generations s" by simp
    from via [OF this u] show ?thesis .
  next
    case (Response q c)
    with generations_step [OF st] have "generations s' = generations s" by simp
    from via [OF this u] show ?thesis .
  next
    case (Failed q c)
    with generations_step [OF st] have "generations s' = generations s" by simp
    from via [OF this u] show ?thesis .
  next
    case (ConfigChanged c)
    with generations_step [OF st] have "generations s' = generations s" by simp
    from via [OF this u] show ?thesis .
  qed
qed

lemma unserved_run:
  "unserved k s \<Longrightarrow> run s es = Some s' \<Longrightarrow> \<forall>e \<in> set es. \<not> stores_usable k e \<Longrightarrow>
   unserved k s'"
proof (induction es arbitrary: s)
  case Nil
  then show ?case by simp
next
  case (Cons e es)
  from Cons.prems(2) obtain s1 where s1: "step s e = Some s1" "run s1 es = Some s'"
    by (auto split: option.splits)
  from Cons.prems(3) have ne: "\<not> stores_usable k e" "\<forall>e \<in> set es. \<not> stores_usable k e"
    by simp_all
  from unserved_step [OF Cons.prems(1) s1(1) ne(1)] have "unserved k s1" .
  from Cons.IH [OF this s1(2) ne(2)] show ?case .
qed

lemma unserved_fulfilled:
  assumes "\<not> truthy (map_get (oldCache (on_fulfilled s p None now)) (p_key p))"
  shows "unserved (p_key p) (on_fulfilled s p None now)"
  using assms by (auto simp: unserved_def cacheProxy_eq map_get_set split: if_splits)

lemma resolveProxy_unserved:
  assumes u: "unserved k s" and nb: "not_bypassed s k r"
    and f: "\<not> truthy (settingsProxy s)" "\<not> truthy (envProxy s)"
  shows "resolveProxy s r now =
     (emit (ExternalResolve (url r)) (arm_timer s),
      Awaiting \<lparr>p_req = req r, p_url = url r, p_key = k,
                p_connection = connection_of (url_protocol r), p_start = now\<rparr>)"
proof -
  from nb obtain port where r: "url_key r = k"
    "url_hostname r \<notin> {Some ''localhost'', Some ''127.0.0.1'', Some ''::1'', Some ''::ffff:127.0.0.1''}"
    "port_argument r = Inr port" "callNoProxy (envNoProxy s) (url_hostname r) port = Inr False"
    unfolding not_bypassed_def by blast
  from u r(1) have m:
    "\<not> truthy (js_or (map_get (cache s) (url_key r)) (map_get (oldCache s) (url_key r)))"
    by (simp add: unserved_def not_truthy_js_or)
  from resolveProxy_miss [OF f m r(2,3,4), of now] r(1) show ?thesis by simp
qed

text \<open>
  Claim C10, as amended. When the external resolver fulfils with \<^verbatim>\<open>undefined\<close>, the key
  is put into the current generation with that value: the entry is there, it adds one
  to the size when the key is new, and it triggers a roll-over when the size reaches the
  capacity. A lookup of the key right after that does not yield the stored value but
  what the previous generation holds for the key. When the previous generation holds no
  usable value for it, then after any later turns, none of which is a fulfilment for
  this key with a usable value, every call of \<^verbatim>\<open>resolveProxy\<close> for the key that reaches
  the cache (the loopback and no-proxy steps pass it on, and neither the settings nor
  the environment give a proxy) calls the external resolver again, does not call the
  callback, and leaves both generations as they are. (When the previous generation
  still holds a usable value for the key, that value is served: see the counterexample
  below.)
\<close>

theorem undefined_resolution_cached_not_served:
  "(let k = p_key p; m = map_set (cache s1) k None; s2 = on_fulfilled s1 p None now2 in
     map_of m k = Some None \<and>
     (k \<notin> fst ` set (cache s1) \<longrightarrow> map_size m = map_size (cache s1) + 1) \<and>
     (if maxCacheEntries \<le> map_size m
      then cache s2 = [] \<and> oldCache s2 = m \<and> cacheRolls s2 = cacheRolls s1 + 1
      else cache s2 = m \<and> oldCache s2 = oldCache s1 \<and> cacheRolls s2 = cacheRolls s1) \<and>
     fst (getCachedProxy s2 k) = map_get (oldCache s2) k \<and>
     (\<not> truthy (map_get (oldCache s2) k) \<and>
      run s2 evs = Some s' \<and> (\<forall>e \<in> set evs. \<not> stores_usable k e) \<and>
      \<not> truthy (settingsProxy s') \<and> \<not> truthy (envProxy s') \<and> not_bypassed s' k r' \<longrightarrow>
        (let g = fst (resolveProxy s' r' now3) in
           snd (resolveProxy s' r' now3) =
             Awaiting \<lparr>p_req = req r', p_url = url r', p_key = k,
                       p_connection = connection_of (url_protocol r'), p_start = now3\<rparr> \<and>
           external_calls (new_effects s' g) = [url r'] \<and>
           callbacks (new_effects s' g) = [] \<and>
           cache g = cache s' \<and> oldCache g = oldCache s')))"
proof -
  let ?k = "p_key p"
  let ?m = "map_set (cache s1) ?k None"
  let ?s2 = "on_fulfilled s1 p None now2"
  have 1: "map_of ?m ?k = Some None" by (simp add: map_set_def update_conv')
  have 2: "?k \<notin> fst ` set (cache s1) \<longrightarrow> map_size ?m = map_size (cache s1) + 1"
    by (simp add: map_size_set)
  have 3: "if maxCacheEntries \<le> map_size ?m
      then cache ?s2 = [] \<and> oldCache ?s2 = ?m \<and> cacheRolls ?s2 = cacheRolls s1 + 1
      else cache ?s2 = ?m \<and> oldCache ?s2 = oldCache s1 \<and> cacheRolls ?s2 = cacheRolls s1"
    by (simp add: cacheProxy_eq)
  have 4: "fst (getCachedProxy ?s2 ?k) = map_get (oldCache ?s2) ?k"
    by (simp add: fst_getCachedProxy cacheProxy_eq map_get_set js_or_def)
  have 5: "let g = fst (resolveProxy s' r' now3) in
           snd (resolveProxy s' r' now3) =
             Awaiting \<lparr>p_req = req r', p_url = url r', p_key = ?k,
                       p_connection = connection_of (url_protocol r'), p_start = now3\<rparr> \<and>
           external_calls (new_effects s' g) = [url r'] \<and>
           callbacks (new_effects s' g) = [] \<and>
           cache g = cache s' \<and> oldCache g = oldCache s'"
    if o: "\<not> truthy (map_get (oldCache ?s2) ?k)"
      and r: "run ?s2 evs = Some s'"
      and c: "\<forall>e \<in> set evs. \<not> stores_usable ?k e"
      and f: "\<not> truthy (settingsProxy s')" "\<not> truthy (envProxy s')"
      and nb: "not_bypassed s' ?k r'"
  proof -
    from unserved_run [OF unserved_fulfilled [OF o] r c] have "unserved ?k s'" .
    from resolveProxy_unserved [OF this nb f, of now3] show ?thesis
      by (simp add: Let_def new_effects_def effects_emit effects_arm_timer)
  qed
  from 1 2 3 4 5 show ?thesis unfolding Let_def by blast
qed

lemma decimal_unfold:
  "decimal n = (if n < 10 then [''0123456789'' ! n]
                else decimal (n div 10) @ [''0123456789'' ! (n mod 10)])"
  by (rule decimal.simps)

lemma decimal_nonempty: "decimal n \<noteq> []"
  by (subst decimal_unfold) simp

lemma digit_inj:
  assumes "a < 10" "b < 10" "''0123456789'' ! a = ''0123456789'' ! b"
  shows "a = b"
proof -
  have "distinct ''0123456789''" by simp
  with assms show ?thesis by (simp add: nth_eq_iff_index_eq)
qed

lemma decimal_inj: "decimal m = decimal n \<Longrightarrow> m = n"
proof (induction m arbitrary: n rule: decimal.induct)
  case (1 m)
  show ?case
  proof (cases "m < 10")
    case True
    with "1.prems" have e: "decimal n = [''0123456789'' ! m]"
      by (subst (asm) decimal_unfold) simp
    have n: "n < 10"
    proof (rule ccontr)
      assume "\<not> n < 10"
      then have "decimal n = decimal (n div 10) @ [''0123456789'' ! (n mod 10)]"
        by (subst decimal_unfold) simp
      with e decimal_nonempty [of "n div 10"] show False by simp
    qed
    then have "decimal n = [''0123456789'' ! n]" by (subst decimal_unfold) simp
    with e have "''0123456789'' ! m = ''0123456789'' ! n" by simp
    from digit_inj [OF True n this] show ?thesis .
  next
    case False
    then have dm: "decimal m = decimal (m div 10) @ [''0123456789'' ! (m mod 10)]"
      by (subst decimal_unfold) simp
    have n: "\<not> n < 10"
    proof
      assume "n < 10"
      then have "decimal n = [''0123456789'' ! n]" by (subst decimal_unfold) simp
      with dm "1.prems" decimal_nonempty [of "m div 10"] show False by simp
    qed
    then have dn: "decimal n = decimal (n div 10) @ [''0123456789'' ! (n mod 10)]"
      by (subst decimal_unfold) simp
    from dm dn "1.prems" have e: "decimal (m div 10) = decimal (n div 10)"
      "''0123456789'' ! (m mod 10) = ''0123456789'' ! (n mod 10)" by simp_all
    from "1.IH" [OF False e(1)] have d: "m div 10 = n div 10" .
    have "m mod 10 = n mod 10" by (rule digit_inj [OF _ _ e(2)]) simp_all
    with d show ?thesis by (metis div_mult_mod_eq)
  qed
qed

lemma other_origin_inj: "other_origin m = other_origin n \<Longrightarrow> m = n"
  using decimal_inj [of "Suc m" "Suc n"] by (simp add: other_origin_def)

lemma distinct_other_entries: "distinct (map fst (other_entries a b))"
proof -
  have "map fst (other_entries a b) = map other_origin [a..<b]"
    by (simp add: other_entries_def comp_def)
  moreover have "inj_on other_origin (set [a..<b])"
    by (rule inj_onI) (rule other_origin_inj)
  ultimately show ?thesis by (simp add: distinct_map)
qed

lemma other_origin_not_sample: "other_origin n \<noteq> ''https://example.com''"
  by (simp add: other_origin_def)

lemma keys_other_entries: "fst ` set (other_entries a b) = other_origin ` {a..<b}"
  by (simp add: other_entries_def image_image)

lemma length_other_entries [simp]: "length (other_entries a b) = b - a"
  by (simp add: other_entries_def)


lemma run_append:
  "run s (a @ b) = (case run s a of None \<Rightarrow> None | Some t \<Rightarrow> run t b)"
  by (induction a arbitrary: s) (auto split: option.splits)

lemma generations_cacheProxy_cong:
  "generations s = generations t \<Longrightarrow> generations (cacheProxy s k v) = generations (cacheProxy t k v)"
  by (simp add: generations_def cacheProxy_eq)

lemma generations_insert_all_cong:
  "generations s = generations t \<Longrightarrow> generations (insert_all s kvs) = generations (insert_all t kvs)"
proof (induction kvs arbitrary: s t)
  case Nil
  then show ?case by (simp add: insert_all_def)
next
  case (Cons a kvs)
  obtain k v where a: "a = (k, v)" by (cases a)
  from Cons.IH [OF generations_cacheProxy_cong [OF Cons.prems, of k v]]
  show ?case by (simp add: a insert_all_Cons)
qed

lemma run_fulfilments:
  "\<exists>s'. run s (map (\<lambda>i. Fulfilled (P i) (V i) (T i)) xs) = Some s' \<and>
        generations s' = generations (insert_all s (map (\<lambda>i. (p_key (P i), V i)) xs)) \<and>
        settingsProxy s' = settingsProxy s \<and> envProxy s' = envProxy s \<and>
        envNoProxy s' = envNoProxy s"
proof (induction xs arbitrary: s)
  case Nil
  then show ?case by (simp add: insert_all_def)
next
  case (Cons i xs)
  let ?s1 = "on_fulfilled s (P i) (V i) (T i)"
  from Cons.IH [of ?s1] obtain s' where s':
    "run ?s1 (map (\<lambda>i. Fulfilled (P i) (V i) (T i)) xs) = Some s'"
    "generations s' = generations (insert_all ?s1 (map (\<lambda>i. (p_key (P i), V i)) xs))"
    "settingsProxy s' = settingsProxy ?s1" "envProxy s' = envProxy ?s1"
    "envNoProxy s' = envNoProxy ?s1" by blast
  have "generations ?s1 = generations (cacheProxy s (p_key (P i)) (V i))"
    by (simp add: generations_def)
  from generations_insert_all_cong [OF this]
  have "generations (insert_all ?s1 (map (\<lambda>i. (p_key (P i), V i)) xs)) =
        generations (insert_all s (map (\<lambda>i. (p_key (P i), V i)) (i # xs)))"
    by (simp add: insert_all_Cons)
  with s' show ?case by simp
qed

lemma run_completions:
  "\<exists>s'. run s (completions a b) = Some s' \<and>
        generations s' = generations (insert_all s (other_entries a b)) \<and>
        settingsProxy s' = settingsProxy s \<and> envProxy s' = envProxy s \<and>
        envNoProxy s' = envNoProxy s"
  using run_fulfilments [of s other_pending "\<lambda>i. Some ''DIRECT''" "\<lambda>i. 6" "[a..<b]"]
  by (simp add: completions_def other_entries_def other_pending_def)

lemma run_burst:
  assumes "\<not> truthy (settingsProxy s)" "\<not> truthy (envProxy s)" "envNoProxy s = Never"
    "cache s = []" "oldCache s = []"
  shows "\<exists>s'. run s (burst n) = Some s' \<and> generations s' = generations s \<and>
           settingsProxy s' = settingsProxy s \<and> envProxy s' = envProxy s \<and>
           envNoProxy s' = envNoProxy s"
proof (induction n)
  case 0
  then show ?case by (simp add: burst_def)
next
  case (Suc n)
  then obtain s' where s': "run s (burst n) = Some s'" "generations s' = generations s"
    "settingsProxy s' = settingsProxy s" "envProxy s' = envProxy s" "envNoProxy s' = envNoProxy s"
    by blast
  let ?r = "other_request n"
  have b: "burst (Suc n) = burst n @ [Resolve ?r 2]" by (simp add: burst_def)
  from s'(2) assms have e: "cache s' = []" "oldCache s' = []" by (simp_all add: generations_def)
  have m: "\<not> truthy (js_or (map_get (cache s') (url_key ?r)) (map_get (oldCache s') (url_key ?r)))"
    by (simp add: e js_or_def)
  have h: "url_hostname ?r \<notin> {Some ''localhost'', Some ''127.0.0.1'', Some ''::1'', Some ''::ffff:127.0.0.1''}"
    by (simp add: other_request_def)
  have p: "port_argument ?r = Inr (decimal (Suc n))"
    using decimal_nonempty [of "Suc n"] by (simp add: port_argument_def other_request_def or_empty_eq)
  have np: "callNoProxy (envNoProxy s') (url_hostname ?r) (decimal (Suc n)) = Inr False"
    by (simp add: s'(5) assms(3))
  from assms(1,2) s'(3,4) have f: "\<not> truthy (settingsProxy s')" "\<not> truthy (envProxy s')" by simp_all
  from resolveProxy_miss [OF f m h p np, of 2]
  have "fst (resolveProxy s' ?r 2) = emit (ExternalResolve (url ?r)) (arm_timer s')" by simp
  then have "generations (fst (resolveProxy s' ?r 2)) = generations s' \<and>
     settingsProxy (fst (resolveProxy s' ?r 2)) = settingsProxy s' \<and>
     envProxy (fst (resolveProxy s' ?r 2)) = envProxy s' \<and>
     envNoProxy (fst (resolveProxy s' ?r 2)) = envNoProxy s'"
    by (simp add: generations_def)
  with s' show ?case by (simp add: b run_append)
qed

lemma insert_all_roll:
  assumes d: "distinct (map fst (cache s @ kvs))"
    and l: "map_size (cache s) + length kvs = maxCacheEntries" and ne: "kvs \<noteq> []"
  shows "generations (insert_all s kvs) = ([], cache s @ kvs, cacheRolls s + 1)"
proof -
  define x where "x = last kvs"
  define a where "a = butlast kvs"
  have kvs: "kvs = a @ [x]" using ne by (simp add: a_def x_def)
  have da: "distinct (map fst (cache s @ a))" using d kvs by simp
  have la: "map_size (cache s) + length a < maxCacheEntries" using l kvs by simp
  have 1: "insert_all s a = s\<lparr>cache := cache s @ a\<rparr>"
    by (rule insert_all_no_roll [OF da la])
  have "fst x \<notin> fst ` set (cache s @ a)" using d kvs by auto
  then have ms: "map_set (cache s @ a) (fst x) (snd x) = cache s @ kvs"
    by (simp add: map_set_fresh kvs)
  have "insert_all s kvs = cacheProxy (insert_all s a) (fst x) (snd x)"
    by (simp add: kvs insert_all_append insert_all_def split_beta)
  then show ?thesis
    unfolding 1 using l by (simp add: cacheProxy_eq ms generations_def map_size_def)
qed


lemma state0_plain: "no_proxy_configured state0 \<and> generations state0 = ([], [], 0)"
  by (simp add: no_proxy_configured_def generations_def state0_def env_none_def engine_eval
        string_eval js_or_def)

lemma sample_resolve_miss:
  assumes "no_proxy_configured s" "unserved (url_key request0) s"
  shows "resolveProxy s request0 t =
           (emit (ExternalResolve (url request0)) (arm_timer s), Awaiting (pending0\<lparr>p_start := t\<rparr>))"
proof -
  have nb: "not_bypassed s (url_key request0) request0"
    using state0_not_bypassed assms(1) state0_plain
    by (simp add: not_bypassed_def no_proxy_configured_def)
  from resolveProxy_unserved [OF assms(2) nb, of t] assms(1)
  show ?thesis
    by (simp add: no_proxy_configured_def request0_def pending0_def connection_of_def)
qed

lemma plain_emit_arm [simp]:
  "no_proxy_configured (emit e (arm_timer s)) = no_proxy_configured s"
  "generations (emit e (arm_timer s)) = generations s"
  by (simp_all add: no_proxy_configured_def generations_def)

lemma plain_burst:
  assumes "no_proxy_configured s" "generations s = ([], [], n)"
  shows "\<exists>s'. run s (burst m) = Some s' \<and> no_proxy_configured s' \<and> generations s' = ([], [], n)"
proof -
  from assms have "\<not> truthy (settingsProxy s)" "\<not> truthy (envProxy s)" "envNoProxy s = Never"
    "cache s = []" "oldCache s = []"
    by (simp_all add: no_proxy_configured_def generations_def)
  from run_burst [OF this, of m] assms show ?thesis
    by (auto simp: no_proxy_configured_def)
qed

lemma plain_completions:
  assumes "no_proxy_configured s"
  shows "\<exists>s'. run s (completions a b) = Some s' \<and> no_proxy_configured s' \<and>
           generations s' = generations (insert_all s (other_entries a b))"
  using run_completions [of s a b] assms by (auto simp: no_proxy_configured_def)

lemma plain_fulfilled:
  assumes "no_proxy_configured s" "generations s = ([], [], n)"
  shows "no_proxy_configured (on_fulfilled s p v t) \<and>
         generations (on_fulfilled s p v t) = ([(p_key p, v)], [], n)"
  using assms maxCacheEntries_pos
  by (simp add: no_proxy_configured_def generations_def cacheProxy_eq map_set_def map_size_def)

lemma sample_not_other: "''https://example.com'' \<notin> fst ` set (other_entries a b)"
proof
  assume "''https://example.com'' \<in> fst ` set (other_entries a b)"
  then obtain n where "''https://example.com'' = other_origin n"
    unfolding keys_other_entries by blast
  with other_origin_not_sample [of n] show False by simp
qed

lemma first_rollover:
  assumes "no_proxy_configured s" "generations s = ([(''https://example.com'', v)], [], n)"
    and b: "Suc b = maxCacheEntries"
  shows "\<exists>s'. run s (completions 0 b) = Some s' \<and> no_proxy_configured s' \<and>
           generations s' = ([], (''https://example.com'', v) # other_entries 0 b, n + 1)"
proof -
  from plain_completions [OF assms(1), of 0 b] obtain s' where s':
    "run s (completions 0 b) = Some s'" "no_proxy_configured s'"
    "generations s' = generations (insert_all s (other_entries 0 b))" by blast
  from assms(2) have c: "cache s = [(''https://example.com'', v)]" "cacheRolls s = n"
    by (simp_all add: generations_def)
  have d: "distinct (map fst (cache s @ other_entries 0 b))"
    using distinct_other_entries [of 0 b] sample_not_other [of 0 b] by (simp add: c)
  have l: "map_size (cache s) + length (other_entries 0 b) = maxCacheEntries"
    using b by (simp add: c map_size_def)
  have "length (other_entries 0 b) \<noteq> 0" using b maxCacheEntries_pos by simp
  then have ne: "other_entries 0 b \<noteq> []" by (simp del: length_other_entries)
  from insert_all_roll [OF d l ne] s' c show ?thesis by auto
qed





lemma sample_not_bypassed: "no_proxy_configured s \<Longrightarrow> not_bypassed s (url_key request0) request0"
  using state0_not_bypassed state0_plain
  by (simp add: not_bypassed_def no_proxy_configured_def)

lemma sample_key [simp]: "p_key pending0 = ''https://example.com''" "url_key request0 = ''https://example.com''"
  by (simp_all add: pending0_def request0_def)

lemma state1_plain: "no_proxy_configured state1 \<and> generations state1 = ([], [], 0)"
proof -
  from resolveProxy_Awaiting [OF state0_awaits]
  have e: "state1 = emit (ExternalResolve (url request0)) (arm_timer state0)" by blast
  show ?thesis unfolding e using state0_plain by simp
qed


lemma undefined_after_rollover_run:
  "\<exists>s. run state0 undefined_after_rollover = Some s \<and> no_proxy_configured s \<and>
       generations s =
         ([(''https://example.com'', None)],
          (''https://example.com'', Some ''PROXY p.example:3128'') # other_entries 0 4999, 1)"
proof -
  have u1: "unserved (url_key request0) state1"
    using state1_plain by (simp add: unserved_def generations_def)
  let ?s1 = "emit (ExternalResolve (url request0)) (arm_timer state1)"
  from sample_resolve_miss [OF _ u1, of 1] state1_plain
  have r1: "resolveProxy state1 request0 1 = (?s1, Awaiting (pending0\<lparr>p_start := 1\<rparr>))" by simp
  have p1: "no_proxy_configured ?s1" "generations ?s1 = ([], [], 0)"
    using state1_plain by simp_all
  from plain_burst [OF p1, of 4999] obtain sa where sa:
    "run ?s1 (burst 4999) = Some sa" "no_proxy_configured sa" "generations sa = ([], [], 0)"
    by blast
  let ?sb = "on_fulfilled sa pending0 (Some ''PROXY p.example:3128'') 5"
  from plain_fulfilled [OF sa(2,3), of pending0 "Some ''PROXY p.example:3128''" 5]
  have sb: "no_proxy_configured ?sb"
    "generations ?sb = ([(''https://example.com'', Some ''PROXY p.example:3128'')], [], 0)"
    by simp_all
  have m: "Suc 4999 = maxCacheEntries" by (simp add: maxCacheEntries_def)
  from first_rollover [OF sb m] obtain sc where sc:
    "run ?sb (completions 0 4999) = Some sc" "no_proxy_configured sc"
    "generations sc = ([], (''https://example.com'', Some ''PROXY p.example:3128'') #
        other_entries 0 4999, 0 + 1)" by blast
  let ?sd = "on_fulfilled sc (pending0\<lparr>p_start := 1\<rparr>) None 9"
  from sc(2) have "no_proxy_configured ?sd" by (simp add: no_proxy_configured_def)
  moreover have "generations ?sd =
         ([(''https://example.com'', None)],
          (''https://example.com'', Some ''PROXY p.example:3128'') # other_entries 0 4999, 1)"
    using sc(3) maxCacheEntries_pos
    by (simp add: generations_def cacheProxy_eq map_set_def map_size_def)
  moreover have "run state0 undefined_after_rollover = Some ?sd"
    unfolding undefined_after_rollover_def
    by (simp add: run_append state0_awaits r1 sa(1) sc(1))
  ultimately show ?thesis by blast
qed



theorem undefined_resolution_cached_not_served_witness:
  "map_size (cache (on_fulfilled state1 pending0 None 5)) = 1 \<and>
   map_of (cache (on_fulfilled state1 pending0 None 5)) (p_key pending0) = Some None \<and>
   fst (getCachedProxy (on_fulfilled state1 pending0 None 5) (p_key pending0)) = None \<and>
   (\<exists>s'. run (on_fulfilled state1 pending0 None 5)
            [Resolve request0 6, Rejected (pending0\<lparr>p_start := 6\<rparr>) ''ETIMEDOUT'',
             ConfigChanged None] = Some s' \<and>
         snd (resolveProxy s' request0 9) = Awaiting (pending0\<lparr>p_start := 9\<rparr>) \<and>
         external_calls (new_effects s' (fst (resolveProxy s' request0 9))) = [url request0] \<and>
         callbacks (new_effects s' (fst (resolveProxy s' request0 9))) = [])"
proof -
  let ?s2 = "on_fulfilled state1 pending0 None 5"
  let ?evs = "[Resolve request0 6, Rejected (pending0\<lparr>p_start := 6\<rparr>) ''ETIMEDOUT'',
             ConfigChanged None]"
  define s' where "s' = onDidChangeConfiguration
     (on_rejected (fst (resolveProxy ?s2 request0 6)) (pending0\<lparr>p_start := 6\<rparr>) ''ETIMEDOUT'') None"
  have r: "run ?s2 ?evs = Some s'" by (simp add: s'_def)
  have c: "cache state1 = []" "oldCache state1 = []"
    "\<not> maxCacheEntries \<le> map_size (map_set [] (p_key pending0) None)"
    "p_key pending0 \<notin> fst ` set (cache state1)"
    using state1_plain maxCacheEntries_pos
    by (simp_all add: generations_def map_set_def map_size_def)
  have o: "\<not> truthy (map_get (oldCache ?s2) (p_key pending0))"
    using c by (simp add: cacheProxy_eq)
  have n: "\<forall>e \<in> set ?evs. \<not> stores_usable (p_key pending0) e" by simp
  from config_run [OF r] state1_plain
  have e: "envProxy s' = envProxy state1" "envNoProxy s' = envNoProxy state1" by simp_all
  have f: "\<not> truthy (settingsProxy s')" "\<not> truthy (envProxy s')"
    using state1_plain
    by (simp_all add: e no_proxy_configured_def)
       (simp add: s'_def onDidChangeConfiguration_def proxyFromConfigURL_def string_eval)
  have nb: "not_bypassed s' (p_key pending0) request0"
    using sample_not_bypassed [of state1] state1_plain
    by (simp add: not_bypassed_def e)
  note t = undefined_resolution_cached_not_served [where p = pending0 and ?s1.0 = state1
      and ?now2.0 = 5 and evs = ?evs and s' = s' and r' = request0 and ?now3.0 = 9,
      unfolded Let_def]
  from t c have 1: "map_size (cache ?s2) = 1 \<and> map_of (cache ?s2) (p_key pending0) = Some None \<and>
     fst (getCachedProxy ?s2 (p_key pending0)) = None"
    using o by (simp add: map_size_def map_set_def cacheProxy_eq)
  from t [THEN conjunct2, THEN conjunct2, THEN conjunct2, THEN conjunct2, rule_format,
      OF conjI [OF o conjI [OF r conjI [OF n conjI [OF f(1) conjI [OF f(2) nb]]]]]]
  have 2: "snd (resolveProxy s' request0 9) = Awaiting (pending0\<lparr>p_start := 9\<rparr>) \<and>
         external_calls (new_effects s' (fst (resolveProxy s' request0 9))) = [url request0] \<and>
         callbacks (new_effects s' (fst (resolveProxy s' request0 9))) = []"
    by (simp add: request0_def pending0_def connection_of_def)
  from 1 2 r show ?thesis by blast
qed

text \<open>
  Lookups after a fulfilment with \<^verbatim>\<open>undefined\<close> that are served from the cache without a
  call of the external resolver. In the first run two resolutions of the sample request
  overlap; the first is fulfilled with a proxy, fulfilments for 4999 other origins roll
  the cache over, and the second is fulfilled with \<^verbatim>\<open>undefined\<close>: the current generation
  holds \<^verbatim>\<open>undefined\<close> for the key, and the next call is answered with the proxy that the
  previous generation still holds. In the second run the overlapping resolution is
  fulfilled with a proxy after the first was fulfilled with \<^verbatim>\<open>undefined\<close>.
\<close>

theorem undefined_resolution_cached_not_served_counterexample:
  "snd (resolveProxy state1 request0 1) = Awaiting (pending0\<lparr>p_start := 1\<rparr>) \<and>
   (\<exists>s. run state0 undefined_after_rollover = Some s \<and>
        map_of (cache s) (p_key pending0) = Some None \<and>
        snd (resolveProxy s request0 10) = Returned \<and>
        callbacks (new_effects s (fst (resolveProxy s request0 10)))
          = [Some ''PROXY p.example:3128''] \<and>
        external_calls (new_effects s (fst (resolveProxy s request0 10))) = []) \<and>
   (\<exists>s. run state0
          [Resolve request0 0, Resolve request0 1, Fulfilled pending0 None 5,
           Fulfilled (pending0\<lparr>p_start := 1\<rparr>) (Some ''PROXY p.example:3128'') 6] = Some s \<and>
        snd (resolveProxy s request0 9) = Returned \<and>
        callbacks (new_effects s (fst (resolveProxy s request0 9)))
          = [Some ''PROXY p.example:3128''] \<and>
        external_calls (new_effects s (fst (resolveProxy s request0 9))) = [])"
proof -
  have a: "snd (resolveProxy state1 request0 1) = Awaiting (pending0\<lparr>p_start := 1\<rparr>)"
    by (simp add: resolver_eval engine_eval string_eval)
  have b: "\<exists>s. run state0 undefined_after_rollover = Some s \<and>
        map_of (cache s) (p_key pending0) = Some None \<and>
        snd (resolveProxy s request0 10) = Returned \<and>
        callbacks (new_effects s (fst (resolveProxy s request0 10)))
          = [Some ''PROXY p.example:3128''] \<and>
        external_calls (new_effects s (fst (resolveProxy s request0 10))) = []"
  proof -
    from undefined_after_rollover_run obtain s where s:
      "run state0 undefined_after_rollover = Some s" "no_proxy_configured s"
      "generations s =
         ([(''https://example.com'', None)],
          (''https://example.com'', Some ''PROXY p.example:3128'') # other_entries 0 4999, 1)"
      by blast
    from s(3) have g: "cache s = [(''https://example.com'', None)]"
      "oldCache s = (''https://example.com'', Some ''PROXY p.example:3128'') # other_entries 0 4999"
      by (simp_all add: generations_def)
    have l: "js_or (map_get (cache s) (url_key request0)) (map_get (oldCache s) (url_key request0))
               = Some ''PROXY p.example:3128''"
      by (simp add: g map_get_def js_or_def)
    from s(2) have f: "\<not> truthy (settingsProxy s)" "\<not> truthy (envProxy s)"
      by (simp_all add: no_proxy_configured_def)
    from resolveProxy_hit [OF f l _ sample_not_bypassed [OF s(2)], of 10]
    have "snd (resolveProxy s request0 10) = Returned \<and>
        callbacks (new_effects s (fst (resolveProxy s request0 10)))
          = [Some ''PROXY p.example:3128''] \<and>
        external_calls (new_effects s (fst (resolveProxy s request0 10))) = []"
      by simp
    moreover have "map_of (cache s) (p_key pending0) = Some None" by (simp add: g)
    ultimately show ?thesis using s(1) by blast
  qed
  have c: "\<exists>s. run state0
          [Resolve request0 0, Resolve request0 1, Fulfilled pending0 None 5,
           Fulfilled (pending0\<lparr>p_start := 1\<rparr>) (Some ''PROXY p.example:3128'') 6] = Some s \<and>
        snd (resolveProxy s request0 9) = Returned \<and>
        callbacks (new_effects s (fst (resolveProxy s request0 9)))
          = [Some ''PROXY p.example:3128''] \<and>
        external_calls (new_effects s (fst (resolveProxy s request0 9))) = []"
    by (simp add: resolver_eval engine_eval string_eval)
  from a b c show ?thesis by blast
qed

section \<open>The decision of the patched functions\<close>

lemma substitution_done:
  assumes "result =
     (case url_options new_URL target opts of
        None \<Rightarrow> Thrown TypeError
      | Some opts \<Rightarrow>
          OriginalCall
            (opts\<lparr>o_agent := ProxyAgent (if is_https then 443 else 80) (o_agent opts)\<rparr>)
            callback)"
  shows "if url_unparsable new_URL target then result = Thrown TypeError
         else substitutes is_https opts callback result"
  unfolding assms
  by (cases target)
     (auto simp: substitutes_def url_unparsable_def url_options_def spread_url_def Let_def
           split: option.splits)

text \<open>
  Claim C3, as amended. For every call of a patched \<^verbatim>\<open>request\<close> or \<^verbatim>\<open>get\<close> of any of
  the five variants, with the options as the call gives them: in mode \<open>off\<close> the original
  function is applied to the unmodified arguments; in mode \<open>on\<close> a proxy agent is
  substituted exactly when the socket path is not set and the caller has supplied no
  agent; in mode \<open>override\<close> one is substituted exactly when the socket path is not set
  and the agent supplied is not a proxy agent already; where an agent is to be
  substituted and the URL argument is a non-empty string that does not parse, the call
  throws a \<^verbatim>\<open>TypeError\<close> and the original function is not called; in any other mode, and
  whenever no agent is to be substituted, the original function is applied to the
  unmodified arguments. The mode is the per-call field when that is set and the variant
  is one of \<^verbatim>\<open>off\<close>, \<^verbatim>\<open>on\<close>, \<^verbatim>\<open>override\<close>, \<^verbatim>\<open>onRequest\<close>, and the global mode
  otherwise, as always in the variant \<^verbatim>\<open>default\<close>; the global mode is fixed for the
  variants \<^verbatim>\<open>off\<close>, \<^verbatim>\<open>on\<close>, \<^verbatim>\<open>override\<close> and is the setting (\<open>off\<close> when there is none)
  for the other two.
\<close>

theorem patched_decision:
  "(case shuffled arg_url arg_options arg_callback of (target, opts, callback) \<Rightarrow>
     let config = effective_mode v proxySupport opts;
         result = createPatchedModules new_URL proxySupport is_https v arg_url arg_options arg_callback
     in
     (config = ''off'' \<longrightarrow> result = OriginalApply arg_url arg_options arg_callback) \<and>
     (config = ''on'' \<longrightarrow>
        (if \<not> truthy (o_socketPath opts) \<and> agent_falsy (o_agent opts)
         then (if url_unparsable new_URL target then result = Thrown TypeError
               else substitutes is_https opts callback result)
         else result = OriginalApply arg_url arg_options arg_callback)) \<and>
     (config = ''override'' \<longrightarrow>
        (if \<not> truthy (o_socketPath opts) \<and> \<not> is_ProxyAgent (o_agent opts)
         then (if url_unparsable new_URL target then result = Thrown TypeError
               else substitutes is_https opts callback result)
         else result = OriginalApply arg_url arg_options arg_callback)) \<and>
     (config \<noteq> ''off'' \<and> config \<noteq> ''on'' \<and> config \<noteq> ''override'' \<longrightarrow>
        result = OriginalApply arg_url arg_options arg_callback) \<and>
     config =
       (case per_call_mode opts of
          Some m \<Rightarrow> (if v = Default then global_mode v proxySupport else m)
        | None \<Rightarrow> global_mode v proxySupport) \<and>
     global_mode v proxySupport =
       (case v of Off \<Rightarrow> ''off'' | On \<Rightarrow> ''on'' | Override \<Rightarrow> ''override''
        | _ \<Rightarrow> (case proxySupport of None \<Rightarrow> ''off'' | Some m \<Rightarrow> if m = [] then ''off'' else m)))"
proof -
  obtain target opts callback where sh: "shuffled arg_url arg_options arg_callback = (target, opts, callback)"
    by (cases "shuffled arg_url arg_options arg_callback")
  obtain sc onR where pa: "patches_arguments v proxySupport = (sc, onR)"
    by (cases "patches_arguments v proxySupport")
  have fa: "agent_falsy a \<Longrightarrow> \<not> is_ProxyAgent a" for a
    by (auto simp: agent_falsy_def)
  note sd = substitution_done [OF refl, where new_URL = new_URL and target = target
      and is_https = is_https and opts = opts and callback = callback]
  have dec: "let config = effective_config onR sc opts;
         result = patched new_URL is_https sc onR arg_url arg_options arg_callback
     in
     (config = ''off'' \<longrightarrow> result = OriginalApply arg_url arg_options arg_callback) \<and>
     (config = ''on'' \<longrightarrow>
        (if \<not> truthy (o_socketPath opts) \<and> agent_falsy (o_agent opts)
         then (if url_unparsable new_URL target then result = Thrown TypeError
               else substitutes is_https opts callback result)
         else result = OriginalApply arg_url arg_options arg_callback)) \<and>
     (config = ''override'' \<longrightarrow>
        (if \<not> truthy (o_socketPath opts) \<and> \<not> is_ProxyAgent (o_agent opts)
         then (if url_unparsable new_URL target then result = Thrown TypeError
               else substitutes is_https opts callback result)
         else result = OriginalApply arg_url arg_options arg_callback)) \<and>
     (config \<noteq> ''off'' \<and> config \<noteq> ''on'' \<and> config \<noteq> ''override'' \<longrightarrow>
        result = OriginalApply arg_url arg_options arg_callback)"
    unfolding patched_def sh
    using sd fa [of "o_agent opts"]
    by (auto simp: Let_def)
  have onR: "onR \<longleftrightarrow> v \<noteq> Default"
    using pa by (cases v) (auto simp: patches_arguments_def)
  have cfg: "effective_config onR sc opts =
       (case per_call_mode opts of
          Some m \<Rightarrow> (if v = Default then sc else m)
        | None \<Rightarrow> sc)"
    by (cases "o_vscodeProxySupport opts"; cases "o_vscodeSystemProxy opts")
       (auto simp: effective_config_def per_call_mode_def js_or_def or_empty_def onR)
  have gm: "global_mode v proxySupport =
       (case v of Off \<Rightarrow> ''off'' | On \<Rightarrow> ''on'' | Override \<Rightarrow> ''override''
        | _ \<Rightarrow> (case proxySupport of None \<Rightarrow> ''off'' | Some m \<Rightarrow> if m = [] then ''off'' else m))"
    by (cases v; cases proxySupport)
       (auto simp: global_mode_def patches_arguments_def proxySupport_setting_def or_empty_def js_or_def)
  have gsc: "global_mode v proxySupport = sc"
    by (simp add: global_mode_def pa)
  have gm': "sc =
       (case v of Off \<Rightarrow> ''off'' | On \<Rightarrow> ''on'' | Override \<Rightarrow> ''override''
        | _ \<Rightarrow> (case proxySupport of None \<Rightarrow> ''off'' | Some m \<Rightarrow> if m = [] then ''off'' else m))"
    using gm gsc by simp
  show ?thesis
    unfolding sh createPatchedModules_def effective_mode_def pa gsc Let_def prod.case
    using dec [unfolded Let_def] cfg gm' by blast
qed

lemmas patch_eval =
  createPatchedModules_def patches_arguments_def proxySupport_setting_def effective_mode_def
  global_mode_def per_call_mode_def
  patched_def shuffled_def effective_config_def url_options_def spread_url_def strip_brackets_def
  agent_falsy_def empty_options_def socket_options_def proxied_options_def override_options_def
  sample_URL_def js_or_def or_empty_def Let_def

theorem patched_decision_witness:
  "substitutes False empty_options (AFunction 7)
     (createPatchedModules sample_URL (Some ''on'') False OnRequest
        (AString ''http://example.com/x'') (AFunction 7) AUndefined) \<and>
   createPatchedModules sample_URL None False On (AString ''not a url'') (AFunction 7) AUndefined
     = Thrown TypeError \<and>
   createPatchedModules sample_URL (Some ''on'') False Off
       (AString ''http://example.com/x'') (AFunction 7) AUndefined
     = OriginalApply (AString ''http://example.com/x'') (AFunction 7) AUndefined \<and>
   substitutes True override_options AUndefined
     (createPatchedModules sample_URL None True OnRequest (AOptions override_options) AUndefined
        AUndefined) \<and>
   createPatchedModules sample_URL (Some ''auto'') True Default (AOptions empty_options) AUndefined
       AUndefined
     = OriginalApply (AOptions empty_options) AUndefined AUndefined"
proof (intro conjI)
  have sh: "shuffled (AString ''http://example.com/x'') (AFunction 7) AUndefined
     = (AString ''http://example.com/x'', empty_options, AFunction 7)"
    by (simp add: shuffled_def)
  have c: "effective_mode OnRequest (Some ''on'') empty_options = ''on''"
    "effective_mode Off (Some ''on'') empty_options = ''off''"
    by (simp_all add: patch_eval)
  have h: "\<not> truthy (o_socketPath empty_options) \<and> agent_falsy (o_agent empty_options)"
    by (simp add: empty_options_def agent_falsy_def)
  have p: "\<not> url_unparsable sample_URL (AString ''http://example.com/x'')"
    by (simp add: url_unparsable_def sample_URL_def)
  from patched_decision [where v = OnRequest and proxySupport = "Some ''on''"
      and new_URL = sample_URL and is_https = False and arg_url = "AString ''http://example.com/x''"
      and arg_options = "AFunction 7" and arg_callback = AUndefined] h p
  show "substitutes False empty_options (AFunction 7)
     (createPatchedModules sample_URL (Some ''on'') False OnRequest
        (AString ''http://example.com/x'') (AFunction 7) AUndefined)"
    unfolding sh by (simp add: c Let_def)
  from patched_decision [where v = Off and proxySupport = "Some ''on''"
      and new_URL = sample_URL and is_https = False and arg_url = "AString ''http://example.com/x''"
      and arg_options = "AFunction 7" and arg_callback = AUndefined]
  show "createPatchedModules sample_URL (Some ''on'') False Off
       (AString ''http://example.com/x'') (AFunction 7) AUndefined
     = OriginalApply (AString ''http://example.com/x'') (AFunction 7) AUndefined"
    unfolding sh by (simp add: c Let_def)
next
  have sh: "shuffled (AString ''not a url'') (AFunction 7) AUndefined
     = (AString ''not a url'', empty_options, AFunction 7)"
    by (simp add: shuffled_def)
  have c: "effective_mode On None empty_options = ''on''"
    by (simp add: patch_eval)
  have h: "\<not> truthy (o_socketPath empty_options) \<and> agent_falsy (o_agent empty_options)"
    by (simp add: empty_options_def agent_falsy_def)
  have p: "url_unparsable sample_URL (AString ''not a url'')"
    by (simp add: url_unparsable_def sample_URL_def)
  from patched_decision [where v = On and proxySupport = None
      and new_URL = sample_URL and is_https = False and arg_url = "AString ''not a url''"
      and arg_options = "AFunction 7" and arg_callback = AUndefined] h p
  show "createPatchedModules sample_URL None False On (AString ''not a url'') (AFunction 7) AUndefined
     = Thrown TypeError"
    unfolding sh by (simp add: c Let_def)
next
  have sh: "shuffled (AOptions override_options) AUndefined AUndefined
     = (AUndefined, override_options, AUndefined)"
    by (simp add: shuffled_def)
  have c: "effective_mode OnRequest None override_options = ''override''"
    by (simp add: patch_eval)
  have h: "\<not> truthy (o_socketPath override_options) \<and> \<not> is_ProxyAgent (o_agent override_options)"
    by (simp add: empty_options_def override_options_def)
  have p: "\<not> url_unparsable sample_URL AUndefined"
    by (simp add: url_unparsable_def)
  from patched_decision [where v = OnRequest and proxySupport = None
      and new_URL = sample_URL and is_https = True and arg_url = "AOptions override_options"
      and arg_options = AUndefined and arg_callback = AUndefined] h p
  show "substitutes True override_options AUndefined
     (createPatchedModules sample_URL None True OnRequest (AOptions override_options) AUndefined
        AUndefined)"
    unfolding sh by (simp add: c Let_def)
next
  have sh: "shuffled (AOptions empty_options) AUndefined AUndefined
     = (AUndefined, empty_options, AUndefined)"
    by (simp add: shuffled_def)
  have c: "effective_mode Default (Some ''auto'') empty_options = ''auto''"
    by (simp add: patch_eval)
  from patched_decision [where v = Default and proxySupport = "Some ''auto''"
      and new_URL = sample_URL and is_https = True and arg_url = "AOptions empty_options"
      and arg_options = AUndefined and arg_callback = AUndefined]
  show "createPatchedModules sample_URL (Some ''auto'') True Default (AOptions empty_options) AUndefined
       AUndefined
     = OriginalApply (AOptions empty_options) AUndefined AUndefined"
    unfolding sh by (simp add: c Let_def)
qed

text \<open>
  Calls in which the claim as first stated fails: mode \<open>on\<close> without an agent but with a
  socket path, passed on unmodified; mode \<open>override\<close> with an agent that is a proxy agent
  already, passed on unmodified; the variant \<^verbatim>\<open>default\<close> with the per-call field set to
  \<open>override\<close>, where the mode is the global one; mode \<open>on\<close> without an agent and with a
  URL that does not parse, where the call throws.
\<close>

theorem patched_decision_counterexample:
  "effective_mode On None socket_options = ''on'' \<and>
   o_agent socket_options = NoAgent \<and>
   createPatchedModules sample_URL None False On (AOptions socket_options) (AFunction 7) AUndefined
     = OriginalApply (AOptions socket_options) (AFunction 7) AUndefined \<and>
   effective_mode Override None proxied_options = ''override'' \<and>
   o_socketPath proxied_options = None \<and>
   createPatchedModules sample_URL None False Override (AOptions proxied_options) (AFunction 7)
       AUndefined
     = OriginalApply (AOptions proxied_options) (AFunction 7) AUndefined \<and>
   per_call_mode override_options = Some ''override'' \<and>
   global_mode Default None = ''off'' \<and>
   effective_mode Default None override_options = ''off'' \<and>
   per_call_mode override_options = Some ''override'' \<and>
   global_mode Default (Some ''on'') = ''on'' \<and>
   effective_mode Default (Some ''on'') override_options = ''on'' \<and>
   effective_mode On None empty_options = ''on'' \<and>
   o_agent empty_options = NoAgent \<and>
   o_socketPath empty_options = None \<and>
   createPatchedModules sample_URL None False On (AString ''not a url'') AUndefined AUndefined
     = Thrown TypeError"
  by (simp add: patch_eval)

end
